theory Spec2Isabelle
  imports Complex_Main "HOL-Library.Word"
begin

section \<open>AudioProcessorPlayer: data model\<close>

text \<open>
  The development embeds \<^verbatim>\<open>juce_AudioProcessorPlayer.cpp\<close>. The player holds a pointer to
  one \<^verbatim>\<open>AudioProcessor\<close>, the device configuration, a scratch \<^verbatim>\<open>AudioSampleBuffer\<close>
  and a \<^verbatim>\<open>HeapBlock<float*>\<close> of channel pointers. Every call the player makes on an
  object it does not own (the processor, the MIDI message collector) is appended to a
  trace, together with the number of times the player's \<^verbatim>\<open>CriticalSection\<close> is held at
  that moment.

  The sample rate, a \<^verbatim>\<open>double\<close> that is only stored and compared with 0, is a \<open>real\<close>.
  The \<^verbatim>\<open>int\<close> counts are \<open>int\<close>. The arithmetic on them is \<open>i + 1\<close> below a bound and
  \<open>numIn - numOut\<close> of two counts that are not negative, which stay within 32 bits, and
  \<open>jmax (numChansIn, numChansOut) + 2\<close>, which does not: there the wrap-around of the 32-bit
  sum is written out (\<open>int32\<close>). Memory is a set of arrays, each named by its base pointer;
  the source adds no offset to a pointer, so a pointer is the name of an array.
\<close>

type_synonym proc = nat
  \<comment> \<open>identity of an \<^verbatim>\<open>AudioProcessor*\<close>; \<open>None\<close> of \<open>proc option\<close> is \<^verbatim>\<open>nullptr\<close>\<close>

type_synonym addr = nat
  \<comment> \<open>a \<^verbatim>\<open>float*\<close> handed in by the device: the base of one array of samples\<close>

type_synonym sample = "32 word"
  \<comment> \<open>the bit pattern of one \<^verbatim>\<open>float\<close>: samples are only copied and cleared here, and the
      pattern \<open>0\<close> that \<^verbatim>\<open>zeromem\<close> writes is the float \<open>+0.0\<close>\<close>

type_synonym cell = "sample option"
  \<comment> \<open>one \<^verbatim>\<open>float\<close> in memory; \<open>None\<close> is a sample whose value is indeterminate (never written)\<close>

type_synonym memory = "addr \<Rightarrow> cell list option"
  \<comment> \<open>the arrays owned by the caller of the audio callback\<close>

type_synonym MidiMessage = "nat list"

datatype ptr = Ext addr | Temp nat
  \<comment> \<open>a \<^verbatim>\<open>float*\<close> stored in \<^verbatim>\<open>channels\<close>: one of the caller's arrays, or the start of a
      channel of the player's own \<^verbatim>\<open>tempBuffer\<close>\<close>

datatype call =
    SetPlayConfigDetails proc int int real int
  | PrepareToPlay proc real int
  | ReleaseResources proc
  | GetCallbackLock proc
  | IsSuspended proc
  | ProcessBlock proc "ptr list" int
  | CollectorReset real
  | CollectorRemoveNextBlockOfMessages int
  | CollectorAddMessageToQueue MidiMessage
  | JAssertFailed

type_synonym event = "nat \<times> call"
  \<comment> \<open>the call, and how many times the player's lock was held when it was made\<close>

datatype error =
    ChannelsOutOfBounds      \<comment> \<open>index outside the \<^verbatim>\<open>channels\<close> heap block\<close>
  | NullChannel              \<comment> \<open>a \<^verbatim>\<open>channels\<close> slot read while still null\<close>
  | ChannelDataOutOfBounds   \<comment> \<open>index outside \<^verbatim>\<open>inputChannelData\<close> or \<^verbatim>\<open>outputChannelData\<close>\<close>
  | TempChannelOutOfBounds   \<comment> \<open>\<^verbatim>\<open>getSampleData\<close> of a channel the buffer does not have\<close>
  | BadBuffer                \<comment> \<open>\<^verbatim>\<open>memcpy\<close>/\<^verbatim>\<open>zeromem\<close> outside an array, or overlapping\<close>

record AudioSampleBuffer =
  numChannels :: int
  size_samples :: int
  chans :: "cell list list"

record AudioProcessorPlayer =
  processor :: "proc option"
  sampleRate :: real
  blockSize :: int
  isPrepared :: bool
  numInputChans :: int
  numOutputChans :: int
  tempBuffer :: "AudioSampleBuffer"
  channels :: "ptr option list"
  lock :: nat
  calls :: "event list"

record AudioProcessors =
  isSuspended :: "proc \<Rightarrow> bool"
  processBlock :: "proc \<Rightarrow> cell list list \<Rightarrow> cell list list"

record AudioIODevice =
  currentSampleRate :: real
  currentBufferSizeSamples :: int
  activeInputChannels :: "bool list"
  activeOutputChannels :: "bool list"

section \<open>Collaborators outside the file\<close>

text \<open>
  Modelled from the spec: \<^verbatim>\<open>AudioSampleBuffer\<close> (the Channel Remap Buffer, "a 2D sample
  buffer" that is "resized lazily to this exact shape") is declared outside the source
  file. A freshly shaped buffer holds indeterminate samples; a request for the shape the
  buffer already has changes nothing.
\<close>

definition newAudioSampleBuffer :: "int \<Rightarrow> int \<Rightarrow> AudioSampleBuffer" where
  "newAudioSampleBuffer newNumChannels newNumSamples =
     \<lparr>numChannels = newNumChannels, size_samples = newNumSamples,
      chans = replicate (nat newNumChannels) (replicate (nat newNumSamples) None)\<rparr>"

definition setSize :: "int \<Rightarrow> int \<Rightarrow> AudioSampleBuffer \<Rightarrow> AudioSampleBuffer" where
  "setSize newNumChannels newNumSamples b =
     (if newNumSamples \<noteq> size_samples b \<or> newNumChannels \<noteq> numChannels b
      then newAudioSampleBuffer newNumChannels newNumSamples else b)"

definition getSampleData :: "AudioSampleBuffer \<Rightarrow> int \<Rightarrow> error + ptr" where
  "getSampleData b channelNumber =
     (if 0 \<le> channelNumber \<and> channelNumber < numChannels b
      then Inr (Temp (nat channelNumber)) else Inl TempChannelOutOfBounds)"

text \<open>
  Modelled from the spec: \<^verbatim>\<open>HeapBlock::calloc\<close> ("channel-index scratch storage" of
  \<open>max(numIn, numOut) + slack\<close> slots) is declared outside the source file. The block
  holds that many null pointers; a negative count gives no usable slot.
\<close>

definition calloc :: "int \<Rightarrow> ptr option list" where
  "calloc newNumElements = replicate (nat newNumElements) None"

text \<open>
  The value that a 32-bit \<^verbatim>\<open>int\<close> holds for the mathematical result \<open>x\<close> of an addition: the
  sum wraps around modulo \<open>2^32\<close> into \<open>-2^31 .. 2^31 - 1\<close>. A sum of channel counts that
  passes \<open>2^31 - 1\<close> is negative, and \<^verbatim>\<open>calloc\<close> then leaves a block with no usable slot.
\<close>

definition int32 :: "int \<Rightarrow> int" where
  "int32 x = (x + 2147483648) mod 4294967296 - 2147483648"

text \<open>
  Modelled from the spec: \<^verbatim>\<open>CriticalSection\<close> and \<^verbatim>\<open>ScopedLock\<close> ("a single exclusive
  Player-level lock") are declared outside the source file. The lock is re-entrant: the
  thread that holds it may enter again, and \<open>lock\<close> counts the entries.
\<close>

definition enter :: "AudioProcessorPlayer \<Rightarrow> AudioProcessorPlayer" where
  "enter s = s\<lparr>lock := Suc (lock s)\<rparr>"

definition exit_lock :: "AudioProcessorPlayer \<Rightarrow> AudioProcessorPlayer" where
  "exit_lock s = s\<lparr>lock := lock s - 1\<rparr>"

definition log_call :: "call \<Rightarrow> AudioProcessorPlayer \<Rightarrow> AudioProcessorPlayer" where
  "log_call c s = s\<lparr>calls := calls s @ [(lock s, c)]\<rparr>"

definition countNumberOfSetBits :: "bool list \<Rightarrow> int" where
  \<comment> \<open>the active channels of a device are a set of bits, here one \<open>bool\<close> per channel\<close>
  "countNumberOfSetBits bits = int (length (filter (\<lambda>b. b) bits))"

section \<open>Construction and the processor slot\<close>

definition AudioProcessorPlayer_new :: "AudioProcessorPlayer" where
  "AudioProcessorPlayer_new =
     \<lparr>processor = None, sampleRate = 0, blockSize = 0, isPrepared = False,
      numInputChans = 0, numOutputChans = 0, tempBuffer = newAudioSampleBuffer 1 1,
      channels = [], lock = 0, calls = []\<rparr>"

definition setProcessor :: "proc option \<Rightarrow> AudioProcessorPlayer \<Rightarrow> AudioProcessorPlayer" where
  "setProcessor processorToPlay s =
     (if processor s \<noteq> processorToPlay then
        let s1 = (case processorToPlay of
                    None \<Rightarrow> s
                  | Some p \<Rightarrow>
                      if sampleRate s > 0 \<and> blockSize s > 0
                      then log_call (PrepareToPlay p (sampleRate s) (blockSize s))
                             (log_call (SetPlayConfigDetails p (numInputChans s) (numOutputChans s)
                                          (sampleRate s) (blockSize s)) s)
                      else s);
            s2 = enter s1;
            oldOne = (if isPrepared s2 then processor s2 else None);
            s3 = exit_lock (s2\<lparr>processor := processorToPlay, isPrepared := True\<rparr>)
        in (case oldOne of None \<Rightarrow> s3 | Some old \<Rightarrow> log_call (ReleaseResources old) s3)
      else s)"

definition AudioProcessorPlayer_delete :: "AudioProcessorPlayer \<Rightarrow> AudioProcessorPlayer" where
  \<comment> \<open>the destructor\<close>
  "AudioProcessorPlayer_delete s = setProcessor None s"

section \<open>Configuration\<close>

definition prepareToPlay ::
  "real \<Rightarrow> int \<Rightarrow> int \<Rightarrow> int \<Rightarrow> AudioProcessorPlayer \<Rightarrow> AudioProcessorPlayer" where
  "prepareToPlay newSampleRate newBlockSize numChansIn numChansOut s =
     (let s1 = enter s;
          s2 = s1\<lparr>sampleRate := newSampleRate, blockSize := newBlockSize,
                  numInputChans := numChansIn, numOutputChans := numChansOut\<rparr>;
          s3 = log_call (CollectorReset (sampleRate s2)) s2;
          s4 = s3\<lparr>channels := calloc (int32 (max numChansIn numChansOut + 2))\<rparr>;
          s5 = (case processor s4 of
                  None \<Rightarrow> s4
                | Some p \<Rightarrow>
                    let s' = (if isPrepared s4 then log_call (ReleaseResources p) s4 else s4);
                        oldProcessor = processor s'
                    in setProcessor oldProcessor (setProcessor None s'))
      in exit_lock s5)"

definition audioDeviceAboutToStart ::
  "AudioIODevice \<Rightarrow> AudioProcessorPlayer \<Rightarrow> AudioProcessorPlayer" where
  "audioDeviceAboutToStart device s =
     prepareToPlay (currentSampleRate device) (currentBufferSizeSamples device)
       (countNumberOfSetBits (activeInputChannels device))
       (countNumberOfSetBits (activeOutputChannels device)) s"

definition audioDeviceStopped :: "AudioProcessorPlayer \<Rightarrow> AudioProcessorPlayer" where
  "audioDeviceStopped s =
     (let s1 = enter s;
          s2 = (case processor s1 of
                  None \<Rightarrow> s1
                | Some p \<Rightarrow> if isPrepared s1 then log_call (ReleaseResources p) s1 else s1);
          s3 = s2\<lparr>sampleRate := 0, blockSize := 0, isPrepared := False,
                  tempBuffer := setSize 1 1 (tempBuffer s2)\<rparr>
      in exit_lock s3)"

definition handleIncomingMidiMessage ::
  "MidiMessage \<Rightarrow> AudioProcessorPlayer \<Rightarrow> AudioProcessorPlayer" where
  "handleIncomingMidiMessage message s = log_call (CollectorAddMessageToQueue message) s"

section \<open>The audio callback\<close>

text \<open>
  Reading or writing outside an array is undefined behaviour in the source; the model
  returns an \<open>error\<close> there, so that a run that returns \<open>Inr\<close> is a run in which
  every access was inside its array.

  Modelled from the spec: \<^verbatim>\<open>jassert\<close> is a macro declared outside the source file
  ("defensive assumption enforced by precondition", "this path never throws"). A failed
  assertion is reported, here as the event \<open>JAssertFailed\<close>, and the function goes on.

  The MIDI buffer is cleared and refilled by the message collector on every call; what
  the collector puts into it is decided outside the source file, so the model records the
  call and carries no MIDI data. What a processor does in \<^verbatim>\<open>processBlock\<close> and whether it
  is suspended are parameters of the callback (\<open>AudioProcessors\<close>).
\<close>

definition bindE :: "error + 'b \<Rightarrow> ('b \<Rightarrow> error + 'c) \<Rightarrow> error + 'c" where
  "bindE r f = (case r of Inl e \<Rightarrow> Inl e | Inr x \<Rightarrow> f x)"

definition element :: "'b list \<Rightarrow> int \<Rightarrow> error + 'b" where
  \<comment> \<open>\<^verbatim>\<open>inputChannelData[i]\<close>, \<^verbatim>\<open>outputChannelData[i]\<close>\<close>
  "element xs i =
     (if 0 \<le> i \<and> i < int (length xs) then Inr (xs ! nat i) else Inl ChannelDataOutOfBounds)"

definition setChannel ::
  "int \<Rightarrow> ptr \<Rightarrow> AudioProcessorPlayer \<Rightarrow> error + AudioProcessorPlayer" where
  \<comment> \<open>\<^verbatim>\<open>channels[k] = p\<close>\<close>
  "setChannel k p s =
     (if 0 \<le> k \<and> k < int (length (channels s))
      then Inr (s\<lparr>channels := (channels s)[nat k := Some p]\<rparr>)
      else Inl ChannelsOutOfBounds)"

definition getChannel :: "int \<Rightarrow> AudioProcessorPlayer \<Rightarrow> error + ptr" where
  \<comment> \<open>\<^verbatim>\<open>channels[k]\<close>, read in order to be written through\<close>
  "getChannel k s =
     (if 0 \<le> k \<and> k < int (length (channels s))
      then (case channels s ! nat k of None \<Rightarrow> Inl NullChannel | Some p \<Rightarrow> Inr p)
      else Inl ChannelsOutOfBounds)"

fun bufferAt :: "memory \<times> AudioProcessorPlayer \<Rightarrow> ptr \<Rightarrow> cell list option" where
  "bufferAt (mem, s) (Ext a) = mem a"
| "bufferAt (mem, s) (Temp c) =
     (if c < length (chans (tempBuffer s)) then Some (chans (tempBuffer s) ! c) else None)"

fun bufferUpd ::
  "ptr \<Rightarrow> cell list \<Rightarrow> memory \<times> AudioProcessorPlayer
     \<Rightarrow> memory \<times> AudioProcessorPlayer" where
  "bufferUpd (Ext a) xs (mem, s) = (mem(a \<mapsto> xs), s)"
| "bufferUpd (Temp c) xs (mem, s) =
     (mem, s\<lparr>tempBuffer := (tempBuffer s)\<lparr>chans := (chans (tempBuffer s))[c := xs]\<rparr>\<rparr>)"

definition memcpy ::
  "ptr \<Rightarrow> ptr \<Rightarrow> int \<Rightarrow> memory \<times> AudioProcessorPlayer
     \<Rightarrow> error + memory \<times> AudioProcessorPlayer" where
  \<comment> \<open>\<^verbatim>\<open>memcpy (dst, src, sizeof (float) * (size_t) n)\<close>; a negative \<open>n\<close> becomes a huge
      \<^verbatim>\<open>size_t\<close>\<close>
  "memcpy dst src n st =
     (case (bufferAt st dst, bufferAt st src) of
        (Some d, Some x) \<Rightarrow>
          if 0 \<le> n \<and> nat n \<le> length d \<and> nat n \<le> length x \<and> \<not> (dst = src \<and> 0 < n)
          then Inr (bufferUpd dst (take (nat n) x @ drop (nat n) d) st)
          else Inl BadBuffer
      | _ \<Rightarrow> Inl BadBuffer)"

definition zeromem ::
  "ptr \<Rightarrow> int \<Rightarrow> memory \<times> AudioProcessorPlayer
     \<Rightarrow> error + memory \<times> AudioProcessorPlayer" where
  \<comment> \<open>\<^verbatim>\<open>zeromem (dst, sizeof (float) * (size_t) n)\<close>\<close>
  "zeromem dst n st =
     (case bufferAt st dst of
        Some d \<Rightarrow>
          if 0 \<le> n \<and> nat n \<le> length d
          then Inr (bufferUpd dst (replicate (nat n) (Some 0) @ drop (nat n) d) st)
          else Inl BadBuffer
      | None \<Rightarrow> Inl BadBuffer)"

function forLoop :: "int \<Rightarrow> int \<Rightarrow> (int \<Rightarrow> 's \<Rightarrow> error + 's) \<Rightarrow> 's \<Rightarrow> error + 's" where
  \<comment> \<open>\<^verbatim>\<open>for (int i = lo; i < hi; ++i) body\<close>\<close>
  "forLoop i hi body st =
     (if i < hi
      then (case body i st of Inl e \<Rightarrow> Inl e | Inr st' \<Rightarrow> forLoop (i + 1) hi body st')
      else Inr st)"
  by pat_completeness auto
termination
  by (relation "measure (\<lambda>(i, hi, body, st). nat (hi - i))") auto

declare forLoop.simps [simp del]

type_synonym remap = "int \<times> memory \<times> AudioProcessorPlayer"
  \<comment> \<open>\<^verbatim>\<open>totalNumChans\<close>, the caller's memory, the player\<close>

definition copyToOutput :: "addr list \<Rightarrow> addr list \<Rightarrow> int \<Rightarrow> int \<Rightarrow> remap \<Rightarrow> error + remap" where
  \<comment> \<open>the body of the loops at lines 91 and 107\<close>
  "copyToOutput inputChannelData outputChannelData numSamples i =
     (\<lambda>(totalNumChans, mem, s).
        bindE (element outputChannelData i) (\<lambda>out.
        bindE (setChannel totalNumChans (Ext out) s) (\<lambda>s1.
        bindE (getChannel totalNumChans s1) (\<lambda>dst.
        bindE (element inputChannelData i) (\<lambda>src.
        bindE (memcpy dst (Ext src) numSamples (mem, s1)) (\<lambda>(mem2, s2).
        Inr (totalNumChans + 1, mem2, s2)))))))"

definition copyToTemp :: "addr list \<Rightarrow> int \<Rightarrow> int \<Rightarrow> int \<Rightarrow> remap \<Rightarrow> error + remap" where
  \<comment> \<open>the body of the loop at line 98\<close>
  "copyToTemp inputChannelData numOutputChannels numSamples i =
     (\<lambda>(totalNumChans, mem, s).
        bindE (getSampleData (tempBuffer s) (i - numOutputChannels)) (\<lambda>tmp.
        bindE (setChannel totalNumChans tmp s) (\<lambda>s1.
        bindE (getChannel totalNumChans s1) (\<lambda>dst.
        bindE (element inputChannelData i) (\<lambda>src.
        bindE (memcpy dst (Ext src) numSamples (mem, s1)) (\<lambda>(mem2, s2).
        Inr (totalNumChans + 1, mem2, s2)))))))"

definition clearOutput :: "addr list \<Rightarrow> int \<Rightarrow> int \<Rightarrow> remap \<Rightarrow> error + remap" where
  \<comment> \<open>the body of the loop at line 114\<close>
  "clearOutput outputChannelData numSamples i =
     (\<lambda>(totalNumChans, mem, s).
        bindE (element outputChannelData i) (\<lambda>out.
        bindE (setChannel totalNumChans (Ext out) s) (\<lambda>s1.
        bindE (getChannel totalNumChans s1) (\<lambda>dst.
        bindE (zeromem dst numSamples (mem, s1)) (\<lambda>(mem2, s2).
        Inr (totalNumChans + 1, mem2, s2))))))"

definition remapChannels ::
  "addr list \<Rightarrow> int \<Rightarrow> addr list \<Rightarrow> int \<Rightarrow> int
     \<Rightarrow> memory \<times> AudioProcessorPlayer \<Rightarrow> error + remap" where
  \<comment> \<open>lines 81 to 120: the unified channel array\<close>
  "remapChannels inputChannelData numInputChannels outputChannelData numOutputChannels numSamples =
     (\<lambda>(mem, s).
        if numInputChannels > numOutputChannels
        then
          let s1 = s\<lparr>tempBuffer :=
                      setSize (numInputChannels - numOutputChannels) numSamples (tempBuffer s)\<rparr>
          in bindE (forLoop 0 numOutputChannels
                      (copyToOutput inputChannelData outputChannelData numSamples) (0, mem, s1))
               (forLoop numOutputChannels numInputChannels
                  (copyToTemp inputChannelData numOutputChannels numSamples))
        else
          bindE (forLoop 0 numInputChannels
                   (copyToOutput inputChannelData outputChannelData numSamples) (0, mem, s))
            (forLoop numInputChannels numOutputChannels
               (clearOutput outputChannelData numSamples)))"

definition referTo :: "int \<Rightarrow> AudioProcessorPlayer \<Rightarrow> error + ptr list" where
  \<comment> \<open>\<^verbatim>\<open>AudioSampleBuffer buffer (channels, totalNumChans, numSamples)\<close>: the buffer refers
      to the first \<open>totalNumChans\<close> pointers of \<^verbatim>\<open>channels\<close>\<close>
  "referTo totalNumChans s =
     (if 0 \<le> totalNumChans \<and> totalNumChans \<le> int (length (channels s))
      then (if None \<in> set (take (nat totalNumChans) (channels s)) then Inl NullChannel
            else Inr (map the (take (nat totalNumChans) (channels s))))
      else Inl ChannelsOutOfBounds)"

definition silenceOutput ::
  "addr list \<Rightarrow> int \<Rightarrow> int \<Rightarrow> memory \<times> AudioProcessorPlayer
     \<Rightarrow> error + memory \<times> AudioProcessorPlayer" where
  \<comment> \<open>the body of the loop at line 132\<close>
  "silenceOutput outputChannelData numSamples i st =
     bindE (element outputChannelData i) (\<lambda>out. zeromem (Ext out) numSamples st)"

definition contents ::
  "memory \<times> AudioProcessorPlayer \<Rightarrow> int \<Rightarrow> ptr \<Rightarrow> cell list" where
  \<comment> \<open>the \<open>n\<close> samples a buffer channel refers to\<close>
  "contents st n p = (case bufferAt st p of None \<Rightarrow> [] | Some d \<Rightarrow> take (nat n) d)"

definition writeBack ::
  "int \<Rightarrow> memory \<times> AudioProcessorPlayer \<Rightarrow> ptr \<times> cell list
     \<Rightarrow> memory \<times> AudioProcessorPlayer" where
  \<comment> \<open>the processor leaves its output in the channel it was given: at most \<open>n\<close> samples,
      never beyond the end of the array\<close>
  "writeBack n st = (\<lambda>(p, new).
     (case bufferAt st p of
        None \<Rightarrow> st
      | Some d \<Rightarrow> bufferUpd p (take (min (nat n) (length d)) new
                               @ drop (min (min (nat n) (length d)) (length new)) d) st))"

definition runProcessBlock ::
  "AudioProcessors \<Rightarrow> proc \<Rightarrow> ptr list \<Rightarrow> int
     \<Rightarrow> memory \<times> AudioProcessorPlayer \<Rightarrow> memory \<times> AudioProcessorPlayer" where
  \<comment> \<open>\<^verbatim>\<open>processor->processBlock (buffer, incomingMidi)\<close>: what the processor computes is
      the parameter \<open>processBlock\<close>; it sees the samples of the buffer's channels and
      overwrites them in place\<close>
  "runProcessBlock units p buffer n st =
     foldl (writeBack n) st (zip buffer (processBlock units p (map (contents st n) buffer)))"

definition dispatch ::
  "AudioProcessors \<Rightarrow> int \<Rightarrow> addr list \<Rightarrow> int \<Rightarrow> int
     \<Rightarrow> memory \<times> AudioProcessorPlayer
     \<Rightarrow> error + memory \<times> AudioProcessorPlayer" where
  \<comment> \<open>lines 122 to 139\<close>
  "dispatch units totalNumChans outputChannelData numOutputChannels numSamples =
     (\<lambda>(mem, s).
        bindE (referTo totalNumChans s) (\<lambda>buffer.
        let s1 = enter s in
        bindE
          (case processor s1 of
             None \<Rightarrow> Inr (mem, s1)
           | Some p \<Rightarrow>
               let s2 = log_call (IsSuspended p) (log_call (GetCallbackLock p) s1) in
               if isSuspended units p
               then forLoop 0 numOutputChannels (silenceOutput outputChannelData numSamples) (mem, s2)
               else Inr (runProcessBlock units p buffer numSamples
                           (mem, log_call (ProcessBlock p buffer numSamples) s2)))
          (\<lambda>(mem3, s3). Inr (mem3, exit_lock s3))))"

definition audioDeviceIOCallback ::
  "AudioProcessors \<Rightarrow> addr list \<Rightarrow> int \<Rightarrow> addr list \<Rightarrow> int \<Rightarrow> int
     \<Rightarrow> memory \<times> AudioProcessorPlayer
     \<Rightarrow> error + memory \<times> AudioProcessorPlayer" where
  "audioDeviceIOCallback units inputChannelData numInputChannels outputChannelData
       numOutputChannels numSamples =
     (\<lambda>(mem, s).
        let s0 = (if sampleRate s > 0 \<and> blockSize s > 0 then s else log_call JAssertFailed s);
            s1 = log_call (CollectorRemoveNextBlockOfMessages numSamples) s0
        in bindE (remapChannels inputChannelData numInputChannels outputChannelData
                    numOutputChannels numSamples (mem, s1))
             (\<lambda>(totalNumChans, mem2, s2).
                dispatch units totalNumChans outputChannelData numOutputChannels numSamples
                  (mem2, s2)))"

section \<open>Vocabulary of the properties\<close>

subsection \<open>Calls made between two states\<close>

definition newEvents :: "AudioProcessorPlayer \<Rightarrow> AudioProcessorPlayer \<Rightarrow> event list" where
  \<comment> \<open>the events logged on the way from \<open>s\<close> to \<open>s'\<close>\<close>
  "newEvents s s' = drop (length (calls s)) (calls s')"

definition newCalls :: "AudioProcessorPlayer \<Rightarrow> AudioProcessorPlayer \<Rightarrow> call list" where
  "newCalls s s' = map snd (newEvents s s')"

fun target :: "call \<Rightarrow> proc option" where
  \<comment> \<open>the processor a call is made on, if it is made on a processor\<close>
  "target (SetPlayConfigDetails p _ _ _ _) = Some p"
| "target (PrepareToPlay p _ _) = Some p"
| "target (ReleaseResources p) = Some p"
| "target (GetCallbackLock p) = Some p"
| "target (IsSuspended p) = Some p"
| "target (ProcessBlock p _ _) = Some p"
| "target _ = None"

definition unitCalls :: "proc \<Rightarrow> call list \<Rightarrow> call list" where
  \<comment> \<open>the calls received by processor \<open>p\<close>\<close>
  "unitCalls p cs = filter (\<lambda>c. target c = Some p) cs"

fun isPrepareOf :: "proc \<Rightarrow> call \<Rightarrow> bool" where
  "isPrepareOf p (PrepareToPlay q _ _) = (p = q)"
| "isPrepareOf p _ = False"

fun isLifecycleCall :: "call \<Rightarrow> bool" where
  "isLifecycleCall (PrepareToPlay _ _ _) = True"
| "isLifecycleCall (ReleaseResources _) = True"
| "isLifecycleCall _ = False"

definition releasedOnceThenPreparedOnce :: "proc \<Rightarrow> call list \<Rightarrow> bool" where
  \<comment> \<open>among the calls \<open>cs\<close>, processor \<open>p\<close> receives one \<^verbatim>\<open>releaseResources\<close> and then one
      \<^verbatim>\<open>prepareToPlay\<close>, and no other of either\<close>
  "releasedOnceThenPreparedOnce p cs =
     (case filter (\<lambda>c. c = ReleaseResources p \<or> isPrepareOf p c) cs of
        [r, q] \<Rightarrow> r = ReleaseResources p \<and> isPrepareOf p q
      | _ \<Rightarrow> False)"

subsection \<open>The lifecycle of a processor\<close>

definition lifecycleStep :: "proc \<Rightarrow> nat \<Rightarrow> call \<Rightarrow> nat" where
  "lifecycleStep p k c =
     (if c = ReleaseResources p then 0 else if isPrepareOf p c then Suc k else k)"

definition preparesSinceRelease :: "proc \<Rightarrow> call list \<Rightarrow> nat" where
  \<comment> \<open>how many \<^verbatim>\<open>prepareToPlay\<close> calls processor \<open>p\<close> has received since its last
      \<^verbatim>\<open>releaseResources\<close>, or since the start; \<open>cs\<close> is in the order of the calls\<close>
  "preparesSinceRelease p cs = foldl (lifecycleStep p) 0 cs"

definition slotInvariant :: "AudioProcessorPlayer \<Rightarrow> bool" where
  \<comment> \<open>an installed processor marked prepared has had one prepare and no release since\<close>
  "slotInvariant s =
     (case processor s of
        None \<Rightarrow> True
      | Some p \<Rightarrow> isPrepared s \<longrightarrow> preparesSinceRelease p (map snd (calls s)) = 1)"

definition configuredSlotInvariant :: "AudioProcessorPlayer \<Rightarrow> bool" where
  \<comment> \<open>the same, for a player whose sample rate and block size are positive\<close>
  "configuredSlotInvariant s =
     (case processor s of
        None \<Rightarrow> True
      | Some p \<Rightarrow> isPrepared s \<and> 0 < sampleRate s \<and> 0 < blockSize s
                  \<longrightarrow> preparesSinceRelease p (map snd (calls s)) = 1)"

definition lifecycleInvariant :: "AudioProcessorPlayer \<Rightarrow> bool" where
  \<comment> \<open>the inductive form: the processors in the prepared state are exactly the one that is
      installed, marked prepared, in a configured player\<close>
  "lifecycleInvariant s \<longleftrightarrow>
     (\<forall>p. preparesSinceRelease p (map snd (calls s)) =
            (if processor s = Some p \<and> isPrepared s \<and> 0 < sampleRate s \<and> 0 < blockSize s
             then 1 else 0))"

definition sameLifecycle :: "AudioProcessorPlayer \<Rightarrow> AudioProcessorPlayer \<Rightarrow> bool" where
  \<comment> \<open>\<open>s'\<close> differs from \<open>s\<close> in \<^verbatim>\<open>channels\<close> and \<^verbatim>\<open>tempBuffer\<close> at most\<close>
  "sameLifecycle s s' \<longleftrightarrow>
     processor s' = processor s \<and> isPrepared s' = isPrepared s \<and> sampleRate s' = sampleRate s
     \<and> blockSize s' = blockSize s \<and> numInputChans s' = numInputChans s
     \<and> numOutputChans s' = numOutputChans s \<and> lock s' = lock s \<and> calls s' = calls s"

subsection \<open>Runs of the player\<close>

datatype operation =
    OpSetProcessor "proc option"
  | OpPrepareToPlay real int int int
  | OpAudioDeviceAboutToStart AudioIODevice
  | OpAudioDeviceStopped
  | OpHandleIncomingMidiMessage MidiMessage
  | OpAudioDeviceIOCallback AudioProcessors "addr list" int "addr list" int int memory
      \<comment> \<open>with the processors' behaviour and the device's memory at the time of the call\<close>

fun perform :: "operation \<Rightarrow> AudioProcessorPlayer \<Rightarrow> error + AudioProcessorPlayer" where
  "perform (OpSetProcessor q) s = Inr (setProcessor q s)"
| "perform (OpPrepareToPlay sr bs cin cout) s = Inr (prepareToPlay sr bs cin cout s)"
| "perform (OpAudioDeviceAboutToStart device) s = Inr (audioDeviceAboutToStart device s)"
| "perform OpAudioDeviceStopped s = Inr (audioDeviceStopped s)"
| "perform (OpHandleIncomingMidiMessage message) s = Inr (handleIncomingMidiMessage message s)"
| "perform (OpAudioDeviceIOCallback units ins numIn outs numOut n mem) s =
     (case audioDeviceIOCallback units ins numIn outs numOut n (mem, s) of
        Inl e \<Rightarrow> Inl e
      | Inr (mem', s') \<Rightarrow> Inr s')"

fun performAll :: "operation list \<Rightarrow> AudioProcessorPlayer \<Rightarrow> error + AudioProcessorPlayer" where
  "performAll [] s = Inr s"
| "performAll (op # ops) s =
     (case perform op s of Inl e \<Rightarrow> Inl e | Inr s' \<Rightarrow> performAll ops s')"

subsection \<open>Well-formed calls of the callback\<close>

definition hasSamples :: "memory \<Rightarrow> int \<Rightarrow> addr \<Rightarrow> bool" where
  \<comment> \<open>\<open>a\<close> is an array of at least \<open>n\<close> samples\<close>
  "hasSamples mem n a = (case mem a of None \<Rightarrow> False | Some d \<Rightarrow> nat n \<le> length d)"

definition validCall :: "addr list \<Rightarrow> int \<Rightarrow> addr list \<Rightarrow> int \<Rightarrow> int \<Rightarrow> memory \<Rightarrow> bool" where
  \<comment> \<open>what the device hands over: \<open>numIn\<close> input arrays and \<open>numOut\<close> output arrays of at
      least \<open>n\<close> samples each, the output arrays different from each other and from every
      input array\<close>
  "validCall ins numIn outs numOut n mem \<longleftrightarrow>
     0 \<le> numIn \<and> 0 \<le> numOut \<and> 0 \<le> n
     \<and> numIn \<le> int (length ins) \<and> numOut \<le> int (length outs)
     \<and> (\<forall>a \<in> set (take (nat numIn) ins).
           hasSamples mem n a \<and> a \<notin> set (take (nat numOut) outs))
     \<and> (\<forall>a \<in> set (take (nat numOut) outs). hasSamples mem n a)
     \<and> distinct (take (nat numOut) outs)"

definition shaped :: "AudioSampleBuffer \<Rightarrow> bool" where
  \<comment> \<open>the buffer holds \<^verbatim>\<open>numChannels\<close> channels of \<^verbatim>\<open>size\<close> samples each, as every buffer
      made by \<open>newAudioSampleBuffer\<close> and \<open>setSize\<close> does\<close>
  "shaped b \<longleftrightarrow> length (chans b) = nat (numChannels b)
     \<and> (\<forall>c \<in> set (chans b). length c = nat (size_samples b))"

subsection \<open>The state a well-formed call leads to\<close>

text \<open>
  The functions of this subsection describe, in closed form, what the loops of the
  callback compute on a well-formed call; the facts below prove that the callback
  computes exactly this, and the properties are then read off.
\<close>

primrec remapMem :: "memory \<Rightarrow> addr list \<Rightarrow> nat \<Rightarrow> addr list \<Rightarrow> int \<Rightarrow> nat \<Rightarrow> memory" where
  \<comment> \<open>the caller's memory once the first \<open>k\<close> output arrays are written: input \<open>k\<close> where
      there is one, zeros otherwise\<close>
  "remapMem mem ins numIn outs n 0 = mem"
| "remapMem mem ins numIn outs n (Suc k) =
     (remapMem mem ins numIn outs n k)
       (outs ! k \<mapsto> (if k < numIn then take (nat n) (the (mem (ins ! k)))
                      else replicate (nat n) (Some 0))
                     @ drop (nat n) (the (mem (outs ! k))))"

definition outputPtrs :: "addr list \<Rightarrow> nat \<Rightarrow> ptr option list \<Rightarrow> ptr option list" where
  \<comment> \<open>\<^verbatim>\<open>channels\<close> once its first \<open>m\<close> slots point to the output arrays\<close>
  "outputPtrs outs m chs = map (\<lambda>a. Some (Ext a)) (take m outs) @ drop m chs"

primrec tempChans ::
  "memory \<Rightarrow> addr list \<Rightarrow> nat \<Rightarrow> int \<Rightarrow> cell list list \<Rightarrow> nat \<Rightarrow> cell list list" where
  \<comment> \<open>the channels of \<^verbatim>\<open>tempBuffer\<close> once the first \<open>j\<close> surplus inputs are copied\<close>
  "tempChans mem ins numOut n cs 0 = cs"
| "tempChans mem ins numOut n cs (Suc j) =
     (tempChans mem ins numOut n cs j)
       [j := take (nat n) (the (mem (ins ! (numOut + j)))) @ drop (nat n) (cs ! j)]"

definition tempPtrs :: "addr list \<Rightarrow> nat \<Rightarrow> nat \<Rightarrow> ptr option list \<Rightarrow> ptr option list" where
  \<comment> \<open>\<^verbatim>\<open>channels\<close> once \<open>numOut\<close> slots point to output arrays and \<open>j\<close> more to
      \<^verbatim>\<open>tempBuffer\<close>\<close>
  "tempPtrs outs numOut j chs =
     map (\<lambda>a. Some (Ext a)) (take numOut outs) @ map (\<lambda>c. Some (Temp c)) [0..<j]
     @ drop (numOut + j) chs"

primrec silenced :: "memory \<Rightarrow> addr list \<Rightarrow> int \<Rightarrow> nat \<Rightarrow> memory" where
  \<comment> \<open>the caller's memory once the first \<open>k\<close> output arrays are cleared\<close>
  "silenced mem outs n 0 = mem"
| "silenced mem outs n (Suc k) =
     (silenced mem outs n k)
       (outs ! k \<mapsto> replicate (nat n) (Some 0)
                     @ drop (nat n) (the (silenced mem outs n k (outs ! k))))"

definition announced :: "int \<Rightarrow> AudioProcessorPlayer \<Rightarrow> AudioProcessorPlayer" where
  \<comment> \<open>the player after lines 77 to 80 of the callback\<close>
  "announced n s =
     log_call (CollectorRemoveNextBlockOfMessages n)
       (if sampleRate s > 0 \<and> blockSize s > 0 then s else log_call JAssertFailed s)"

definition remappedPlayer ::
  "addr list \<Rightarrow> int \<Rightarrow> addr list \<Rightarrow> int \<Rightarrow> int \<Rightarrow> memory \<Rightarrow> AudioProcessorPlayer
     \<Rightarrow> AudioProcessorPlayer" where
  \<comment> \<open>the player after the remap step\<close>
  "remappedPlayer ins numIn outs numOut n mem s =
     (if numOut < numIn
      then s\<lparr>channels := tempPtrs outs (nat numOut) (nat (numIn - numOut)) (channels s),
             tempBuffer := (setSize (numIn - numOut) n (tempBuffer s))
               \<lparr>chans := tempChans mem ins (nat numOut) n
                          (chans (setSize (numIn - numOut) n (tempBuffer s)))
                          (nat (numIn - numOut))\<rparr>\<rparr>
      else s\<lparr>channels := outputPtrs outs (nat numOut) (channels s)\<rparr>)"

definition unifiedBuffer :: "addr list \<Rightarrow> int \<Rightarrow> int \<Rightarrow> ptr list" where
  \<comment> \<open>the channels of the buffer handed to \<^verbatim>\<open>processBlock\<close>: the output arrays, then one
      channel of \<^verbatim>\<open>tempBuffer\<close> for each surplus input\<close>
  "unifiedBuffer outs numIn numOut =
     map Ext (take (nat numOut) outs) @ map Temp [0..<nat (numIn - numOut)]"

subsection \<open>Example inputs\<close>

definition examplePlayer :: AudioProcessorPlayer where
  \<comment> \<open>a player configured for stereo at 44.1 kHz, then given processor 7\<close>
  "examplePlayer = setProcessor (Some 7) (prepareToPlay 44100 512 2 2 AudioProcessorPlayer_new)"

definition configuredPlayer :: AudioProcessorPlayer where
  \<comment> \<open>the same configuration, no processor\<close>
  "configuredPlayer = prepareToPlay 44100 512 2 2 AudioProcessorPlayer_new"

definition stoppedPlayer :: AudioProcessorPlayer where
  "stoppedPlayer = audioDeviceStopped examplePlayer"

definition exampleMemory :: memory where
  \<comment> \<open>two input arrays (0 and 1) and two output arrays (2 and 3) of two samples\<close>
  "exampleMemory = [0 \<mapsto> [Some 5, Some 6], 1 \<mapsto> [Some 7, Some 8],
                    2 \<mapsto> [None, None], 3 \<mapsto> [None, Some 1]]"

definition suspendedUnits :: AudioProcessors where
  "suspendedUnits = \<lparr>isSuspended = (\<lambda>p. True), processBlock = (\<lambda>p xs. xs)\<rparr>"

definition runningUnits :: AudioProcessors where
  "runningUnits = \<lparr>isSuspended = (\<lambda>p. False), processBlock = (\<lambda>p xs. xs)\<rparr>"

section \<open>Facts about the lifecycle operations\<close>

lemmas player_defs = enter_def exit_lock_def log_call_def Let_def

lemma newEvents_append: "calls s' = calls s @ es \<Longrightarrow> newEvents s s' = es"
  by (simp add: newEvents_def)

lemma setSize_idem: "setSize c n (setSize c n b) = setSize c n b"
  by (simp add: setSize_def newAudioSampleBuffer_def)

lemma setProcessor_calls:
  "calls (setProcessor q s) = calls s @
     (if processor s = q then [] else
      (case q of None \<Rightarrow> [] | Some p \<Rightarrow>
         if 0 < sampleRate s \<and> 0 < blockSize s
         then [(lock s, SetPlayConfigDetails p (numInputChans s) (numOutputChans s)
                          (sampleRate s) (blockSize s)),
               (lock s, PrepareToPlay p (sampleRate s) (blockSize s))]
         else [])
      @ (case processor s of None \<Rightarrow> []
         | Some old \<Rightarrow> if isPrepared s then [(lock s, ReleaseResources old)] else []))"
  by (simp add: setProcessor_def player_defs split: option.splits)

lemma setProcessor_fields:
  "processor (setProcessor q s) = q"
  "isPrepared (setProcessor q s) = (processor s \<noteq> q \<or> isPrepared s)"
  "sampleRate (setProcessor q s) = sampleRate s"
  "blockSize (setProcessor q s) = blockSize s"
  "numInputChans (setProcessor q s) = numInputChans s"
  "numOutputChans (setProcessor q s) = numOutputChans s"
  "tempBuffer (setProcessor q s) = tempBuffer s"
  "channels (setProcessor q s) = channels s"
  "lock (setProcessor q s) = lock s"
  by (auto simp add: setProcessor_def player_defs split: option.splits)


lemma int32_overflow:
  "2147483647 < x \<Longrightarrow> x \<le> 4294967295 \<Longrightarrow> int32 x = x - 4294967296"
proof -
  assume a: "2147483647 < x" "x \<le> 4294967295"
  have e: "x + 2147483648 = (x - 2147483648) + 4294967296" by simp
  have "(x + 2147483648) mod 4294967296 = (x - 2147483648) mod 4294967296"
    by (simp only: e mod_add_self2)
  also from a have "\<dots> = x - 2147483648" by (simp add: mod_pos_pos_trivial)
  finally show ?thesis unfolding int32_def by simp
qed

lemma prepareToPlay_calls:
  "calls (prepareToPlay sr bs cin cout s) = calls s @ (Suc (lock s), CollectorReset sr) #
     (case processor s of None \<Rightarrow> [] | Some p \<Rightarrow>
        (if isPrepared s
         then [(Suc (lock s), ReleaseResources p), (Suc (lock s), ReleaseResources p)] else [])
        @ (if 0 < sr \<and> 0 < bs
           then [(Suc (lock s), SetPlayConfigDetails p cin cout sr bs),
                 (Suc (lock s), PrepareToPlay p sr bs)]
           else []))"
  by (auto simp add: prepareToPlay_def setProcessor_calls setProcessor_fields player_defs
      split: option.splits)

lemma prepareToPlay_fields:
  "processor (prepareToPlay sr bs cin cout s) = processor s"
  "isPrepared (prepareToPlay sr bs cin cout s) = (processor s \<noteq> None \<or> isPrepared s)"
  "sampleRate (prepareToPlay sr bs cin cout s) = sr"
  "blockSize (prepareToPlay sr bs cin cout s) = bs"
  "numInputChans (prepareToPlay sr bs cin cout s) = cin"
  "numOutputChans (prepareToPlay sr bs cin cout s) = cout"
  "tempBuffer (prepareToPlay sr bs cin cout s) = tempBuffer s"
  "channels (prepareToPlay sr bs cin cout s) = calloc (int32 (max cin cout + 2))"
  "lock (prepareToPlay sr bs cin cout s) = lock s"
  by (auto simp add: prepareToPlay_def setProcessor_fields player_defs split: option.splits)

lemma audioDeviceStopped_calls:
  "calls (audioDeviceStopped s) = calls s @
     (case processor s of None \<Rightarrow> []
      | Some p \<Rightarrow> if isPrepared s then [(Suc (lock s), ReleaseResources p)] else [])"
  by (simp add: audioDeviceStopped_def player_defs split: option.splits)

lemma audioDeviceStopped_fields:
  "processor (audioDeviceStopped s) = processor s"
  "isPrepared (audioDeviceStopped s) = False"
  "sampleRate (audioDeviceStopped s) = 0"
  "blockSize (audioDeviceStopped s) = 0"
  "numInputChans (audioDeviceStopped s) = numInputChans s"
  "numOutputChans (audioDeviceStopped s) = numOutputChans s"
  "tempBuffer (audioDeviceStopped s) = setSize 1 1 (tempBuffer s)"
  "channels (audioDeviceStopped s) = channels s"
  "lock (audioDeviceStopped s) = lock s"
  by (auto simp add: audioDeviceStopped_def player_defs split: option.splits)

lemma audioDeviceStopped_twice: "audioDeviceStopped (audioDeviceStopped s) = audioDeviceStopped s"
  by (simp add: audioDeviceStopped_def player_defs setSize_idem split: option.splits)

lemma examplePlayer_fields:
  "processor examplePlayer = Some 7" "isPrepared examplePlayer" "lock examplePlayer = 0"
  "sampleRate examplePlayer = 44100" "blockSize examplePlayer = 512"
  "channels examplePlayer = [None, None, None, None]"
  "calls examplePlayer = [(1, CollectorReset 44100), (0, SetPlayConfigDetails 7 2 2 44100 512),
                          (0, PrepareToPlay 7 44100 512)]"
  by (simp_all add: examplePlayer_def setProcessor_fields setProcessor_calls prepareToPlay_fields
      prepareToPlay_calls AudioProcessorPlayer_new_def calloc_def int32_def numeral_eq_Suc)

section \<open>Reconfiguring with a processor installed\<close>

text \<open>
  C1, as stated: every \<^verbatim>\<open>prepareToPlay\<close> of the player made while a processor is installed
  and marked prepared gives that processor exactly one \<^verbatim>\<open>releaseResources\<close> followed by
  exactly one \<^verbatim>\<open>prepareToPlay\<close>. It fails on the example player: the processor is
  released twice (once by \<^verbatim>\<open>prepareToPlay\<close> itself, once more by \<^verbatim>\<open>setProcessor (nullptr)\<close>,
  since \<^verbatim>\<open>isPrepared\<close> is still set), and with a sample rate of 0 it is not prepared
  again at all.
\<close>

theorem prepareToPlay_not_one_release_one_prepare:
  "processor examplePlayer = Some 7 \<and> isPrepared examplePlayer
   \<and> \<not> releasedOnceThenPreparedOnce 7
         (newCalls examplePlayer (prepareToPlay 48000 256 2 2 examplePlayer))
   \<and> unitCalls 7 (newCalls examplePlayer (prepareToPlay 48000 256 2 2 examplePlayer)) =
       [ReleaseResources 7, ReleaseResources 7,
        SetPlayConfigDetails 7 2 2 48000 256, PrepareToPlay 7 48000 256]
   \<and> \<not> releasedOnceThenPreparedOnce 7
         (newCalls examplePlayer (prepareToPlay 0 256 2 2 examplePlayer))
   \<and> unitCalls 7 (newCalls examplePlayer (prepareToPlay 0 256 2 2 examplePlayer)) =
       [ReleaseResources 7, ReleaseResources 7]"
  by (simp add: newCalls_def newEvents_append [OF prepareToPlay_calls] examplePlayer_fields
      unitCalls_def releasedOnceThenPreparedOnce_def)

text \<open>
  C1, amended: when \<^verbatim>\<open>prepareToPlay\<close> is called with a positive sample rate and block size
  while a processor is installed and marked prepared, the processor is released and
  then receives \<^verbatim>\<open>setPlayConfigDetails\<close> and exactly one \<^verbatim>\<open>prepareToPlay\<close> under the new
  configuration, with no release after it; the same processor is installed and marked
  prepared afterwards.
\<close>

theorem prepareToPlay_reinstalls:
  assumes "processor s = Some p" and "isPrepared s" and "0 < sr" and "0 < bs"
  shows "processor (prepareToPlay sr bs cin cout s) = Some p
       \<and> isPrepared (prepareToPlay sr bs cin cout s)
       \<and> (\<exists>k>0. unitCalls p (newCalls s (prepareToPlay sr bs cin cout s)) =
                  replicate k (ReleaseResources p)
                  @ [SetPlayConfigDetails p cin cout sr bs, PrepareToPlay p sr bs])"
proof -
  have "unitCalls p (newCalls s (prepareToPlay sr bs cin cout s)) =
          replicate 2 (ReleaseResources p)
          @ [SetPlayConfigDetails p cin cout sr bs, PrepareToPlay p sr bs]"
    using assms
    by (simp add: newCalls_def newEvents_append [OF prepareToPlay_calls] unitCalls_def
        numeral_2_eq_2)
  then have "\<exists>k>0. unitCalls p (newCalls s (prepareToPlay sr bs cin cout s)) =
                  replicate k (ReleaseResources p)
                  @ [SetPlayConfigDetails p cin cout sr bs, PrepareToPlay p sr bs]"
    by (intro exI [of _ 2]) simp
  then show ?thesis using assms by (simp add: prepareToPlay_fields)
qed

theorem prepareToPlay_reinstalls_witness:
  "processor examplePlayer = Some 7 \<and> isPrepared examplePlayer \<and> (0::real) < 48000 \<and> (0::int) < 256
   \<and> processor (prepareToPlay 48000 256 2 2 examplePlayer) = Some 7
   \<and> isPrepared (prepareToPlay 48000 256 2 2 examplePlayer)
   \<and> (\<exists>k>0. unitCalls 7 (newCalls examplePlayer (prepareToPlay 48000 256 2 2 examplePlayer)) =
              replicate k (ReleaseResources 7)
              @ [SetPlayConfigDetails 7 2 2 48000 256, PrepareToPlay 7 48000 256])"
  using prepareToPlay_reinstalls [of examplePlayer 7 48000 256 2 2]
  by (simp add: examplePlayer_fields)

section \<open>Stopping the device\<close>

text \<open>
  C8: \<^verbatim>\<open>audioDeviceStopped\<close> releases the installed processor exactly when it was marked
  prepared, resets the sample rate and the block size to 0, clears \<^verbatim>\<open>isPrepared\<close> and
  shrinks \<^verbatim>\<open>tempBuffer\<close> to one channel of one sample; a second call right after makes no
  call at all and leaves the player as the first call left it.
\<close>

theorem audioDeviceStopped_idempotent:
  "newCalls s (audioDeviceStopped s) =
     (case processor s of None \<Rightarrow> []
      | Some p \<Rightarrow> if isPrepared s then [ReleaseResources p] else [])
   \<and> sampleRate (audioDeviceStopped s) = 0
   \<and> blockSize (audioDeviceStopped s) = 0
   \<and> \<not> isPrepared (audioDeviceStopped s)
   \<and> numChannels (tempBuffer (audioDeviceStopped s)) = 1
   \<and> size_samples (tempBuffer (audioDeviceStopped s)) = 1
   \<and> newCalls (audioDeviceStopped s) (audioDeviceStopped (audioDeviceStopped s)) = []
   \<and> audioDeviceStopped (audioDeviceStopped s) = audioDeviceStopped s"
proof -
  have "newCalls s (audioDeviceStopped s) =
     (case processor s of None \<Rightarrow> []
      | Some p \<Rightarrow> if isPrepared s then [ReleaseResources p] else [])"
    by (simp add: newCalls_def newEvents_append [OF audioDeviceStopped_calls] split: option.splits)
  moreover have "numChannels (tempBuffer (audioDeviceStopped s)) = 1
      \<and> size_samples (tempBuffer (audioDeviceStopped s)) = 1"
    by (simp add: audioDeviceStopped_fields setSize_def newAudioSampleBuffer_def)
  moreover have "newCalls (audioDeviceStopped s) (audioDeviceStopped (audioDeviceStopped s)) = []"
    by (simp add: audioDeviceStopped_twice newCalls_def newEvents_def)
  ultimately show ?thesis
    by (simp add: audioDeviceStopped_fields audioDeviceStopped_twice)
qed

theorem audioDeviceStopped_idempotent_witness:
  "newCalls examplePlayer (audioDeviceStopped examplePlayer) = [ReleaseResources 7]
   \<and> sampleRate (audioDeviceStopped examplePlayer) = 0
   \<and> blockSize (audioDeviceStopped examplePlayer) = 0
   \<and> \<not> isPrepared (audioDeviceStopped examplePlayer)
   \<and> newCalls (audioDeviceStopped examplePlayer)
        (audioDeviceStopped (audioDeviceStopped examplePlayer)) = []
   \<and> audioDeviceStopped (audioDeviceStopped examplePlayer) = audioDeviceStopped examplePlayer"
  using audioDeviceStopped_idempotent [of examplePlayer]
  by (auto simp add: examplePlayer_fields)

section \<open>Facts about the audio callback\<close>

subsection \<open>Error propagation and loops\<close>


lemma bindE_simps [simp]: "bindE (Inr x) f = f x" "bindE (Inl e) f = Inl e"
  by (simp_all add: bindE_def)

lemma bindE_Inr_iff: "bindE r f = Inr y \<longleftrightarrow> (\<exists>x. r = Inr x \<and> f x = Inr y)"
  by (cases r) simp_all

lemma forLoop_done: "hi \<le> lo \<Longrightarrow> forLoop lo hi body st = Inr st"
  by (simp add: forLoop.simps)

lemma forLoop_step: "lo < hi \<Longrightarrow> forLoop lo hi body st = bindE (body lo st) (forLoop (lo + 1) hi body)"
  by (subst forLoop.simps) (simp add: bindE_def)

lemma forLoop_partial:
  assumes "forLoop lo hi body st = Inr st'" and "I lo st"
    and "\<And>i x y. lo \<le> i \<Longrightarrow> i < hi \<Longrightarrow> I i x \<Longrightarrow> body i x = Inr y \<Longrightarrow> I (i + 1) y"
  shows "I (max lo hi) st'"
  using assms
proof (induction lo hi body st rule: forLoop.induct)
  case (1 i hi body st)
  show ?case
  proof (cases "i < hi")
    case True
    from "1.prems"(1) True obtain y where y: "body i st = Inr y" "forLoop (i + 1) hi body y = Inr st'"
      by (auto simp add: forLoop_step bindE_Inr_iff)
    have "I (i + 1) y" using "1.prems"(3) [of i st y] True "1.prems"(2) y by simp
    with "1.IH" [OF True y(1) y(2)] "1.prems"(3) have "I (max (i + 1) hi) st'" by simp
    with True show ?thesis by (simp add: max_def)
  next
    case False
    with "1.prems" show ?thesis by (simp add: forLoop_done max_def)
  qed
qed

lemma forLoop_total:
  assumes "I lo st" and "lo \<le> hi"
    and "\<And>i x. lo \<le> i \<Longrightarrow> i < hi \<Longrightarrow> I i x \<Longrightarrow> \<exists>y. body i x = Inr y \<and> I (i + 1) y"
  shows "\<exists>y. forLoop lo hi body st = Inr y \<and> I hi y"
  using assms
proof (induction lo hi body st rule: forLoop.induct)
  case (1 i hi body st)
  show ?case
  proof (cases "i < hi")
    case True
    from "1.prems"(3) [of i st] True "1.prems"(1) obtain y where y: "body i st = Inr y" "I (i + 1) y"
      by auto
    have "\<exists>z. forLoop (i + 1) hi body y = Inr z \<and> I hi z"
      using "1.IH" [OF True y(1) y(2)] True "1.prems"(3) by simp
    with True y show ?thesis by (simp add: forLoop_step)
  next
    case False
    with "1.prems" show ?thesis by (simp add: forLoop_done)
  qed
qed


subsection \<open>When one access, and one iteration, succeeds\<close>


lemma element_Inr_iff:
  "element xs i = Inr a \<longleftrightarrow> 0 \<le> i \<and> i < int (length xs) \<and> a = xs ! nat i"
  by (auto simp add: element_def)

lemma setChannel_Inr_iff:
  "setChannel k p s = Inr s' \<longleftrightarrow>
     0 \<le> k \<and> k < int (length (channels s)) \<and> s' = s\<lparr>channels := (channels s)[nat k := Some p]\<rparr>"
  by (auto simp add: setChannel_def)

lemma getChannel_after_set:
  "0 \<le> k \<Longrightarrow> k < int (length (channels s)) \<Longrightarrow>
     getChannel k (s\<lparr>channels := (channels s)[nat k := Some p]\<rparr>) = Inr p"
  by (simp add: getChannel_def)

lemma memcpy_Ext_Inr_iff:
  "memcpy (Ext a) (Ext b) n (mem, s) = Inr r \<longleftrightarrow>
     (\<exists>d x. mem a = Some d \<and> mem b = Some x \<and> 0 \<le> n \<and> nat n \<le> length d \<and> nat n \<le> length x
        \<and> \<not> (a = b \<and> 0 < n) \<and> r = (mem(a \<mapsto> take (nat n) x @ drop (nat n) d), s))"
  by (auto simp add: memcpy_def split: option.splits)

lemma memcpy_Temp_Inr_iff:
  "memcpy (Temp c) (Ext b) n (mem, s) = Inr r \<longleftrightarrow>
     (\<exists>x. c < length (chans (tempBuffer s)) \<and> mem b = Some x \<and> 0 \<le> n
        \<and> nat n \<le> length (chans (tempBuffer s) ! c) \<and> nat n \<le> length x
        \<and> r = (mem, s\<lparr>tempBuffer := (tempBuffer s)\<lparr>chans := (chans (tempBuffer s))
                 [c := take (nat n) x @ drop (nat n) (chans (tempBuffer s) ! c)]\<rparr>\<rparr>))"
  by (auto simp add: memcpy_def split: option.splits)

lemma zeromem_Ext_Inr_iff:
  "zeromem (Ext a) n (mem, s) = Inr r \<longleftrightarrow>
     (\<exists>d. mem a = Some d \<and> 0 \<le> n \<and> nat n \<le> length d
        \<and> r = (mem(a \<mapsto> replicate (nat n) (Some 0) @ drop (nat n) d), s))"
  by (auto simp add: zeromem_def split: option.splits)

lemma copyToOutput_Inr_iff:
  "copyToOutput ins outs n i (t, mem, s) = Inr r \<longleftrightarrow>
     (0 \<le> i \<and> i < int (length outs) \<and> i < int (length ins)
      \<and> 0 \<le> t \<and> t < int (length (channels s))
      \<and> (\<exists>d x. mem (outs ! nat i) = Some d \<and> mem (ins ! nat i) = Some x \<and> 0 \<le> n
            \<and> nat n \<le> length d \<and> nat n \<le> length x \<and> \<not> (outs ! nat i = ins ! nat i \<and> 0 < n)
            \<and> r = (t + 1, mem(outs ! nat i \<mapsto> take (nat n) x @ drop (nat n) d),
                    s\<lparr>channels := (channels s)[nat t := Some (Ext (outs ! nat i))]\<rparr>)))"
  by (auto simp add: copyToOutput_def bindE_Inr_iff element_Inr_iff setChannel_Inr_iff
      getChannel_after_set memcpy_Ext_Inr_iff)

lemma clearOutput_Inr_iff:
  "clearOutput outs n i (t, mem, s) = Inr r \<longleftrightarrow>
     (0 \<le> i \<and> i < int (length outs)
      \<and> 0 \<le> t \<and> t < int (length (channels s))
      \<and> (\<exists>d. mem (outs ! nat i) = Some d \<and> 0 \<le> n \<and> nat n \<le> length d
            \<and> r = (t + 1, mem(outs ! nat i \<mapsto> replicate (nat n) (Some 0) @ drop (nat n) d),
                    s\<lparr>channels := (channels s)[nat t := Some (Ext (outs ! nat i))]\<rparr>)))"
  by (auto simp add: clearOutput_def bindE_Inr_iff element_Inr_iff setChannel_Inr_iff
      getChannel_after_set zeromem_Ext_Inr_iff)

lemma copyToTemp_Inr_iff:
  "copyToTemp ins numOut n i (t, mem, s) = Inr r \<longleftrightarrow>
     (0 \<le> i - numOut \<and> i - numOut < numChannels (tempBuffer s)
      \<and> 0 \<le> i \<and> i < int (length ins)
      \<and> 0 \<le> t \<and> t < int (length (channels s))
      \<and> nat (i - numOut) < length (chans (tempBuffer s))
      \<and> (\<exists>x. mem (ins ! nat i) = Some x \<and> 0 \<le> n
            \<and> nat n \<le> length (chans (tempBuffer s) ! nat (i - numOut)) \<and> nat n \<le> length x
            \<and> r = (t + 1, mem,
                    s\<lparr>channels := (channels s)[nat t := Some (Temp (nat (i - numOut)))],
                      tempBuffer := (tempBuffer s)\<lparr>chans := (chans (tempBuffer s))
                        [nat (i - numOut) := take (nat n) x
                           @ drop (nat n) (chans (tempBuffer s) ! nat (i - numOut))]\<rparr>\<rparr>)))"
  by (auto simp add: copyToTemp_def bindE_Inr_iff element_Inr_iff setChannel_Inr_iff
      getChannel_after_set memcpy_Temp_Inr_iff getSampleData_def)

subsection \<open>The memory and the pointers of a well-formed call\<close>


lemma remapMem_frame:
  "m \<le> length outs \<Longrightarrow> a \<notin> set (take m outs) \<Longrightarrow> remapMem mem ins numIn outs n m a = mem a"
  by (induction m) (auto simp add: take_Suc_conv_app_nth)

lemma remapMem_at:
  "m \<le> length outs \<Longrightarrow> distinct (take m outs) \<Longrightarrow> k < m \<Longrightarrow>
     remapMem mem ins numIn outs n m (outs ! k) =
       Some ((if k < numIn then take (nat n) (the (mem (ins ! k))) else replicate (nat n) (Some 0))
             @ drop (nat n) (the (mem (outs ! k))))"
proof (induction m)
  case 0
  then show ?case by simp
next
  case (Suc m)
  then have d: "distinct (take m outs)" "outs ! m \<notin> set (take m outs)" "m < length outs"
    by (simp_all add: take_Suc_conv_app_nth)
  show ?case
  proof (cases "k = m")
    case True
    then show ?thesis by simp
  next
    case False
    with Suc.prems have "k < m" by simp
    then have "outs ! k \<in> set (take m outs)" using d(3) by (simp add: in_set_conv_nth) (metis less_imp_le_nat min.absorb2 nth_take order_less_trans)
    with d have "outs ! k \<noteq> outs ! m" by auto
    with Suc.IH d \<open>k < m\<close> show ?thesis by simp
  qed
qed

lemma outputPtrs_0 [simp]: "outputPtrs outs 0 chs = chs"
  by (simp add: outputPtrs_def)

lemma outputPtrs_Suc:
  "m < length outs \<Longrightarrow> m < length chs \<Longrightarrow>
     (outputPtrs outs m chs)[m := Some (Ext (outs ! m))] = outputPtrs outs (Suc m) chs"
  by (simp add: outputPtrs_def take_Suc_conv_app_nth list_update_append
      flip: Cons_nth_drop_Suc)

lemma length_outputPtrs [simp]:
  "m \<le> length outs \<Longrightarrow> m \<le> length chs \<Longrightarrow> length (outputPtrs outs m chs) = length chs"
  by (simp add: outputPtrs_def)

lemma hasSamples_iff: "hasSamples mem n a \<longleftrightarrow> (\<exists>d. mem a = Some d \<and> nat n \<le> length d)"
  by (simp add: hasSamples_def split: option.splits)

lemma nth_in_take: "k < m \<Longrightarrow> m \<le> length xs \<Longrightarrow> xs ! k \<in> set (take m xs)"
  by (auto simp add: in_set_conv_nth intro!: exI [of _ k])

lemma validCall_in:
  assumes "validCall ins numIn outs numOut n mem" and "k < nat numIn"
  shows "\<exists>x. mem (ins ! k) = Some x \<and> nat n \<le> length x" and "ins ! k \<notin> set (take (nat numOut) outs)"
proof -
  from assms have "nat numIn \<le> length ins" unfolding validCall_def by linarith
  with assms(2) have "ins ! k \<in> set (take (nat numIn) ins)" by (rule nth_in_take)
  with assms(1) have "hasSamples mem n (ins ! k) \<and> ins ! k \<notin> set (take (nat numOut) outs)"
    unfolding validCall_def by blast
  then show "\<exists>x. mem (ins ! k) = Some x \<and> nat n \<le> length x"
    and "ins ! k \<notin> set (take (nat numOut) outs)"
    by (simp_all add: hasSamples_iff)
qed

lemma validCall_out:
  assumes "validCall ins numIn outs numOut n mem" and "k < nat numOut"
  shows "\<exists>d. mem (outs ! k) = Some d \<and> nat n \<le> length d"
proof -
  from assms have "nat numOut \<le> length outs" unfolding validCall_def by linarith
  with assms(2) have "outs ! k \<in> set (take (nat numOut) outs)" by (rule nth_in_take)
  with assms(1) have "hasSamples mem n (outs ! k)"
    unfolding validCall_def by blast
  then show ?thesis by (simp add: hasSamples_iff)
qed

lemma distinct_take_le:
  assumes "distinct (take N xs)" and "m \<le> N" shows "distinct (take m xs)"
proof -
  from assms(2) have "take m xs = take m (take N xs)" by (simp add: min_def)
  with assms(1) show ?thesis by (metis distinct_take)
qed

lemma set_take_le: "m \<le> N \<Longrightarrow> set (take m xs) \<subseteq> set (take N xs)"
  by (simp add: set_take_subset_set_take)

lemma nth_notin_take:
  assumes "distinct (take N xs)" and "k < N" and "N \<le> length xs"
  shows "xs ! k \<notin> set (take k xs)"
proof -
  from assms have "distinct (take (Suc k) xs)" by (auto intro: distinct_take_le [of N xs "Suc k"])
  moreover from assms have "k < length xs" by simp
  ultimately show ?thesis by (simp add: take_Suc_conv_app_nth)
qed

lemma validCall_lengths:
  assumes "validCall ins numIn outs numOut n mem"
  shows "nat numIn \<le> length ins" and "nat numOut \<le> length outs" and "0 \<le> n"
    and "distinct (take (nat numOut) outs)" and "0 \<le> numIn" and "0 \<le> numOut"
  using assms unfolding validCall_def by auto

subsection \<open>One iteration on a well-formed call\<close>


lemma copy_step:
  assumes v: "validCall ins numIn outs numOut n mem"
    and i: "0 \<le> i" "i < numIn" "i < numOut" "i < int (length chs)"
  shows "copyToOutput ins outs n i
           (i, remapMem mem ins (nat numIn) outs n (nat i),
            s\<lparr>channels := outputPtrs outs (nat i) chs\<rparr>) =
         Inr (i + 1, remapMem mem ins (nat numIn) outs n (nat (i + 1)),
              s\<lparr>channels := outputPtrs outs (nat (i + 1)) chs\<rparr>)"
proof -
  let ?k = "nat i"
  note len = validCall_lengths(1,2) [OF v] and n = validCall_lengths(3) [OF v]
    and dist = validCall_lengths(4) [OF v]
  from i have k: "?k < nat numIn" "?k < nat numOut" "?k < length chs" by simp_all
  from validCall_in [OF v k(1)] obtain x where x: "mem (ins ! ?k) = Some x" "nat n \<le> length x"
    and xo: "ins ! ?k \<notin> set (take (nat numOut) outs)" by blast
  from validCall_out [OF v k(2)] obtain d where d: "mem (outs ! ?k) = Some d" "nat n \<le> length d"
    by blast
  from k(2) len(2) have ko: "?k < length outs" by (rule less_le_trans)
  from k(1) len(1) have ki: "?k < length ins" by (rule less_le_trans)
  from ko have kle: "?k \<le> length outs" by (rule less_imp_le)
  note kl = kle ko ki
  have io: "i < int (length outs)" "i < int (length ins)" using i(1) ko ki by linarith+
  have "outs ! ?k \<notin> set (take ?k outs)" using dist k(2) len(2) by (rule nth_notin_take)
  then have Mo: "remapMem mem ins (nat numIn) outs n ?k (outs ! ?k) = Some d"
    using kl d by (simp add: remapMem_frame)
  have "ins ! ?k \<notin> set (take ?k outs)"
    using xo set_take_le [of ?k "nat numOut" outs] k(2) by auto
  then have Mi: "remapMem mem ins (nat numIn) outs n ?k (ins ! ?k) = Some x"
    using kl x by (simp add: remapMem_frame)
  have neq: "outs ! ?k \<noteq> ins ! ?k"
    using xo nth_in_take [OF k(2) len(2)] by auto
  have S: "nat (i + 1) = Suc ?k" using i by simp
  have M: "remapMem mem ins (nat numIn) outs n (Suc ?k) =
           (remapMem mem ins (nat numIn) outs n ?k)(outs ! ?k \<mapsto> take (nat n) x @ drop (nat n) d)"
    using k x d by simp
  have C: "(outputPtrs outs ?k chs)[?k := Some (Ext (outs ! ?k))] = outputPtrs outs (Suc ?k) chs"
    using kl k by (simp add: outputPtrs_Suc)
  have L: "length (outputPtrs outs ?k chs) = length chs" using kl k by simp
  show ?thesis
    unfolding copyToOutput_Inr_iff S M
    using i io kl k n x d Mo Mi neq C L by simp
qed

lemma clear_step:
  assumes v: "validCall ins numIn outs numOut n mem"
    and i: "numIn \<le> i" "i < numOut" "i < int (length chs)"
  shows "clearOutput outs n i
           (i, remapMem mem ins (nat numIn) outs n (nat i),
            s\<lparr>channels := outputPtrs outs (nat i) chs\<rparr>) =
         Inr (i + 1, remapMem mem ins (nat numIn) outs n (nat (i + 1)),
              s\<lparr>channels := outputPtrs outs (nat (i + 1)) chs\<rparr>)"
proof -
  let ?k = "nat i"
  note len = validCall_lengths(1,2) [OF v] and n = validCall_lengths(3) [OF v]
    and dist = validCall_lengths(4) [OF v] and nn = validCall_lengths(5) [OF v]
  from i nn have i0: "0 \<le> i" by simp
  from i i0 have k: "\<not> ?k < nat numIn" "?k < nat numOut" "?k < length chs" by simp_all
  from validCall_out [OF v k(2)] obtain d where d: "mem (outs ! ?k) = Some d" "nat n \<le> length d"
    by blast
  from k(2) len(2) have ko: "?k < length outs" by (rule less_le_trans)
  from ko have kle: "?k \<le> length outs" by (rule less_imp_le)
  have io: "i < int (length outs)" using i0 ko by linarith
  have "outs ! ?k \<notin> set (take ?k outs)" using dist k(2) len(2) by (rule nth_notin_take)
  then have Mo: "remapMem mem ins (nat numIn) outs n ?k (outs ! ?k) = Some d"
    using kle d by (simp add: remapMem_frame)
  have S: "nat (i + 1) = Suc ?k" using i0 by simp
  have M: "remapMem mem ins (nat numIn) outs n (Suc ?k) =
           (remapMem mem ins (nat numIn) outs n ?k)
             (outs ! ?k \<mapsto> replicate (nat n) (Some 0) @ drop (nat n) d)"
    using k(1) d by auto
  have C: "(outputPtrs outs ?k chs)[?k := Some (Ext (outs ! ?k))] = outputPtrs outs (Suc ?k) chs"
    using ko k by (simp add: outputPtrs_Suc)
  have L: "length (outputPtrs outs ?k chs) = length chs" using kle k by simp
  show ?thesis
    unfolding clearOutput_Inr_iff S M
    using i0 i io ko k n d Mo C L by simp
qed

lemma length_tempChans [simp]: "length (tempChans mem ins N n cs j) = length cs"
  by (induction j) simp_all

lemma tempChans_untouched: "j \<le> c \<Longrightarrow> tempChans mem ins N n cs j ! c = cs ! c"
  by (induction j) simp_all

lemma tempChans_at:
  "c < j \<Longrightarrow> j \<le> length cs \<Longrightarrow>
     tempChans mem ins N n cs j ! c =
       take (nat n) (the (mem (ins ! (N + c)))) @ drop (nat n) (cs ! c)"
proof (induction j)
  case 0
  then show ?case by simp
next
  case (Suc j)
  then show ?case by (cases "c = j") simp_all
qed

lemma tempPtrs_0: "tempPtrs outs N 0 chs = outputPtrs outs N chs"
  by (simp add: tempPtrs_def outputPtrs_def)

lemma tempPtrs_Suc:
  "N \<le> length outs \<Longrightarrow> N + j < length chs \<Longrightarrow>
     (tempPtrs outs N j chs)[N + j := Some (Temp j)] = tempPtrs outs N (Suc j) chs"
  by (simp add: tempPtrs_def list_update_append flip: Cons_nth_drop_Suc)

lemma length_tempPtrs [simp]:
  "N \<le> length outs \<Longrightarrow> N + j \<le> length chs \<Longrightarrow> length (tempPtrs outs N j chs) = length chs"
  by (simp add: tempPtrs_def)

lemma shaped_setSize: "shaped b \<Longrightarrow> shaped (setSize c n b)"
  by (simp add: shaped_def setSize_def newAudioSampleBuffer_def)

lemma setSize_shape:
  "numChannels (setSize c n b) = c" "size_samples (setSize c n b) = n"
  by (simp_all add: setSize_def newAudioSampleBuffer_def)

lemma copyToTemp_ok:
  assumes "0 \<le> i - numOut" and "i - numOut < numChannels (tempBuffer s)" and "0 \<le> i"
    and "i < int (length ins)" and "t < int (length (channels s))"
    and "nat (i - numOut) < length (chans (tempBuffer s))" and "mem (ins ! nat i) = Some x"
    and "0 \<le> n" and "nat n \<le> length (chans (tempBuffer s) ! nat (i - numOut))"
    and "nat n \<le> length x" and "0 \<le> t"
  shows "copyToTemp ins numOut n i (t, mem, s) =
           Inr (t + 1, mem,
                s\<lparr>channels := (channels s)[nat t := Some (Temp (nat (i - numOut)))],
                  tempBuffer := (tempBuffer s)\<lparr>chans := (chans (tempBuffer s))
                    [nat (i - numOut) := take (nat n) x
                       @ drop (nat n) (chans (tempBuffer s) ! nat (i - numOut))]\<rparr>\<rparr>)"
  unfolding copyToTemp_Inr_iff using assms by simp

lemma temp_step:
  assumes v: "validCall ins numIn outs numOut n mem"
    and i: "numOut \<le> i" "i < numIn" "i < int (length chs)"
    and tb: "numChannels tb = numIn - numOut" "length (chans tb) = nat (numIn - numOut)"
            "\<forall>c \<in> set (chans tb). nat n \<le> length c"
    and M: "\<forall>k < nat numIn. M (ins ! k) = mem (ins ! k)"
  shows "copyToTemp ins numOut n i
           (i, M, s\<lparr>channels := tempPtrs outs (nat numOut) (nat (i - numOut)) chs,
                    tempBuffer := tb\<lparr>chans := tempChans mem ins (nat numOut) n (chans tb)
                                                 (nat (i - numOut))\<rparr>\<rparr>) =
         Inr (i + 1, M, s\<lparr>channels := tempPtrs outs (nat numOut) (nat (i + 1 - numOut)) chs,
                          tempBuffer := tb\<lparr>chans := tempChans mem ins (nat numOut) n (chans tb)
                                                 (nat (i + 1 - numOut))\<rparr>\<rparr>)"
proof -
  let ?N = "nat numOut" and ?j = "nat (i - numOut)"
  note len = validCall_lengths(1,2) [OF v] and n = validCall_lengths(3) [OF v]
    and no = validCall_lengths(6) [OF v]
  from i no have i0: "0 \<le> i" by simp
  have ij: "nat i = ?N + ?j" using i no by simp
  have j: "?j < nat (numIn - numOut)" using i by simp
  have k: "nat i < nat numIn" "nat i < length chs" using i i0 by simp_all
  from k(1) len(1) have ki: "nat i < length ins" by (rule less_le_trans)
  have io: "i < int (length ins)" using i0 ki by linarith
  from validCall_in(1) [OF v k(1)] obtain x where x: "mem (ins ! nat i) = Some x" "nat n \<le> length x"
    by blast
  from M k(1) x have Mx: "M (ins ! nat i) = Some x" by simp
  have jl: "?j < length (chans tb)" using j tb(2) by simp
  then have "chans tb ! ?j \<in> set (chans tb)" by simp
  with tb(3) have cl: "nat n \<le> length (chans tb ! ?j)" by blast
  have U: "tempChans mem ins ?N n (chans tb) ?j ! ?j = chans tb ! ?j"
    by (simp add: tempChans_untouched)
  have S: "nat (i + 1 - numOut) = Suc ?j" using i by simp
  have T: "tempChans mem ins ?N n (chans tb) (Suc ?j) =
             (tempChans mem ins ?N n (chans tb) ?j)
               [?j := take (nat n) x @ drop (nat n) (chans tb ! ?j)]"
    using x ij by simp
  have C: "(tempPtrs outs ?N ?j chs)[nat i := Some (Temp ?j)] = tempPtrs outs ?N (Suc ?j) chs"
    unfolding ij using len(2) k(2) ij by (simp add: tempPtrs_Suc)
  have L: "length (tempPtrs outs ?N ?j chs) = length chs"
    using len(2) k(2) ij by simp
  let ?S = "s\<lparr>channels := tempPtrs outs ?N ?j chs,
               tempBuffer := tb\<lparr>chans := tempChans mem ins ?N n (chans tb) ?j\<rparr>\<rparr>"
  have pre: "0 \<le> i - numOut" "i - numOut < numChannels (tempBuffer ?S)" "0 \<le> i"
    "i < int (length ins)" "i < int (length (channels ?S))"
    "?j < length (chans (tempBuffer ?S))" "M (ins ! nat i) = Some x" "0 \<le> n"
    "nat n \<le> length (chans (tempBuffer ?S) ! ?j)" "nat n \<le> length x"
    using i i0 io n tb(1) jl Mx cl U L x(2) by simp_all
  have "copyToTemp ins numOut n i (i, M, ?S) =
          Inr (i + 1, M,
               ?S\<lparr>channels := (channels ?S)[nat i := Some (Temp ?j)],
                  tempBuffer := (tempBuffer ?S)\<lparr>chans := (chans (tempBuffer ?S))
                     [?j := take (nat n) x @ drop (nat n) (chans (tempBuffer ?S) ! ?j)]\<rparr>\<rparr>)"
    by (rule copyToTemp_ok [where mem = M and ins = ins and x = x, OF pre i0])
  also have "\<dots> = Inr (i + 1, M,
                  s\<lparr>channels := tempPtrs outs ?N (Suc ?j) chs,
                    tempBuffer := tb\<lparr>chans := tempChans mem ins ?N n (chans tb) (Suc ?j)\<rparr>\<rparr>)"
    unfolding T by (simp add: C U)
  finally show ?thesis unfolding S .
qed

subsection \<open>The loops on a well-formed call\<close>


lemma copy_loop:
  assumes v: "validCall ins numIn outs numOut n mem"
    and b: "0 \<le> lo" "lo \<le> m" "m \<le> numIn" "m \<le> numOut" "m \<le> int (length chs)"
  shows "forLoop lo m (copyToOutput ins outs n)
           (lo, remapMem mem ins (nat numIn) outs n (nat lo),
            s\<lparr>channels := outputPtrs outs (nat lo) chs\<rparr>) =
         Inr (m, remapMem mem ins (nat numIn) outs n (nat m),
              s\<lparr>channels := outputPtrs outs (nat m) chs\<rparr>)"
proof -
  let ?I = "\<lambda>i x. x = (i, remapMem mem ins (nat numIn) outs n (nat i),
                          s\<lparr>channels := outputPtrs outs (nat i) chs\<rparr>)"
  have "\<exists>y. forLoop lo m (copyToOutput ins outs n)
           (lo, remapMem mem ins (nat numIn) outs n (nat lo),
            s\<lparr>channels := outputPtrs outs (nat lo) chs\<rparr>) = Inr y \<and> ?I m y"
  proof (rule forLoop_total [where I = ?I])
    show "?I lo (lo, remapMem mem ins (nat numIn) outs n (nat lo),
                 s\<lparr>channels := outputPtrs outs (nat lo) chs\<rparr>)" by simp
    show "lo \<le> m" by (rule b(2))
  next
    fix i x
    assume i: "lo \<le> i" "i < m" and x: "?I i x"
    from i b have "0 \<le> i" "i < numIn" "i < numOut" "i < int (length chs)" by simp_all
    from copy_step [OF v this] x
    show "\<exists>y. copyToOutput ins outs n i x = Inr y \<and> ?I (i + 1) y" by simp
  qed
  then show ?thesis by auto
qed

lemma clear_loop:
  assumes v: "validCall ins numIn outs numOut n mem"
    and b: "numIn \<le> lo" "lo \<le> m" "m \<le> numOut" "m \<le> int (length chs)"
  shows "forLoop lo m (clearOutput outs n)
           (lo, remapMem mem ins (nat numIn) outs n (nat lo),
            s\<lparr>channels := outputPtrs outs (nat lo) chs\<rparr>) =
         Inr (m, remapMem mem ins (nat numIn) outs n (nat m),
              s\<lparr>channels := outputPtrs outs (nat m) chs\<rparr>)"
proof -
  let ?I = "\<lambda>i x. x = (i, remapMem mem ins (nat numIn) outs n (nat i),
                          s\<lparr>channels := outputPtrs outs (nat i) chs\<rparr>)"
  have "\<exists>y. forLoop lo m (clearOutput outs n)
           (lo, remapMem mem ins (nat numIn) outs n (nat lo),
            s\<lparr>channels := outputPtrs outs (nat lo) chs\<rparr>) = Inr y \<and> ?I m y"
  proof (rule forLoop_total [where I = ?I])
    show "?I lo (lo, remapMem mem ins (nat numIn) outs n (nat lo),
                 s\<lparr>channels := outputPtrs outs (nat lo) chs\<rparr>)" by simp
    show "lo \<le> m" by (rule b(2))
  next
    fix i x
    assume i: "lo \<le> i" "i < m" and x: "?I i x"
    from i b have "numIn \<le> i" "i < numOut" "i < int (length chs)" by simp_all
    from clear_step [OF v this] x
    show "\<exists>y. clearOutput outs n i x = Inr y \<and> ?I (i + 1) y" by simp
  qed
  then show ?thesis by auto
qed

lemma temp_loop:
  assumes v: "validCall ins numIn outs numOut n mem"
    and b: "numOut \<le> lo" "lo \<le> m" "m \<le> numIn" "m \<le> int (length chs)"
    and tb: "numChannels tb = numIn - numOut" "length (chans tb) = nat (numIn - numOut)"
            "\<forall>c \<in> set (chans tb). nat n \<le> length c"
    and M: "\<forall>k < nat numIn. M (ins ! k) = mem (ins ! k)"
  shows "forLoop lo m (copyToTemp ins numOut n)
           (lo, M, s\<lparr>channels := tempPtrs outs (nat numOut) (nat (lo - numOut)) chs,
                     tempBuffer := tb\<lparr>chans := tempChans mem ins (nat numOut) n (chans tb)
                                                  (nat (lo - numOut))\<rparr>\<rparr>) =
         Inr (m, M, s\<lparr>channels := tempPtrs outs (nat numOut) (nat (m - numOut)) chs,
                      tempBuffer := tb\<lparr>chans := tempChans mem ins (nat numOut) n (chans tb)
                                                   (nat (m - numOut))\<rparr>\<rparr>)"
proof -
  let ?I = "\<lambda>i x. x = (i, M, s\<lparr>channels := tempPtrs outs (nat numOut) (nat (i - numOut)) chs,
                     tempBuffer := tb\<lparr>chans := tempChans mem ins (nat numOut) n (chans tb)
                                                  (nat (i - numOut))\<rparr>\<rparr>)"
  have "\<exists>y. forLoop lo m (copyToTemp ins numOut n)
           (lo, M, s\<lparr>channels := tempPtrs outs (nat numOut) (nat (lo - numOut)) chs,
                     tempBuffer := tb\<lparr>chans := tempChans mem ins (nat numOut) n (chans tb)
                                                  (nat (lo - numOut))\<rparr>\<rparr>) = Inr y \<and> ?I m y"
  proof (rule forLoop_total [where I = ?I])
    show "?I lo (lo, M, s\<lparr>channels := tempPtrs outs (nat numOut) (nat (lo - numOut)) chs,
                     tempBuffer := tb\<lparr>chans := tempChans mem ins (nat numOut) n (chans tb)
                                                  (nat (lo - numOut))\<rparr>\<rparr>)" by simp
    show "lo \<le> m" by (rule b(2))
  next
    fix i x
    assume i: "lo \<le> i" "i < m" and x: "?I i x"
    from i b have "numOut \<le> i" "i < numIn" "i < int (length chs)" by simp_all
    from temp_step [OF v this tb M] x
    show "\<exists>y. copyToTemp ins numOut n i x = Inr y \<and> ?I (i + 1) y" by (simp add: algebra_simps)
  qed
  then show ?thesis by auto
qed

subsection \<open>The remap step on a well-formed call\<close>


lemma remapChannels_le:
  assumes v: "validCall ins numIn outs numOut n mem"
    and b: "numIn \<le> numOut" "numOut \<le> int (length (channels s))"
  shows "remapChannels ins numIn outs numOut n (mem, s) =
           Inr (numOut, remapMem mem ins (nat numIn) outs n (nat numOut),
                s\<lparr>channels := outputPtrs outs (nat numOut) (channels s)\<rparr>)"
proof -
  note nn = validCall_lengths(5) [OF v]
  have 1: "forLoop 0 numIn (copyToOutput ins outs n) (0, mem, s) =
             Inr (numIn, remapMem mem ins (nat numIn) outs n (nat numIn),
                  s\<lparr>channels := outputPtrs outs (nat numIn) (channels s)\<rparr>)"
    using copy_loop [OF v, of 0 numIn "channels s" s] nn b by simp
  have 2: "forLoop numIn numOut (clearOutput outs n)
             (numIn, remapMem mem ins (nat numIn) outs n (nat numIn),
              s\<lparr>channels := outputPtrs outs (nat numIn) (channels s)\<rparr>) =
           Inr (numOut, remapMem mem ins (nat numIn) outs n (nat numOut),
                s\<lparr>channels := outputPtrs outs (nat numOut) (channels s)\<rparr>)"
    using clear_loop [OF v, of numIn numOut "channels s" s] b by simp
  show ?thesis using b(1) by (simp add: remapChannels_def 1 2)
qed

lemma shaped_chans:
  assumes "shaped b"
  shows "length (chans b) = nat (numChannels b)"
    and "\<forall>c \<in> set (chans b). nat (size_samples b) \<le> length c"
  using assms by (simp_all add: shaped_def)

lemma remapMem_inputs:
  assumes v: "validCall ins numIn outs numOut n mem" and m: "m \<le> nat numOut"
  shows "\<forall>k < nat numIn. remapMem mem ins N outs n m (ins ! k) = mem (ins ! k)"
proof (intro allI impI)
  fix k assume k: "k < nat numIn"
  from validCall_in(2) [OF v k] set_take_le [OF m, of outs]
  have "ins ! k \<notin> set (take m outs)" by auto
  moreover from m validCall_lengths(2) [OF v] have "m \<le> length outs" by simp
  ultimately show "remapMem mem ins N outs n m (ins ! k) = mem (ins ! k)"
    by (simp add: remapMem_frame)
qed

lemma remapChannels_gt:
  assumes v: "validCall ins numIn outs numOut n mem"
    and b: "numOut < numIn" "numIn \<le> int (length (channels s))"
    and sh: "shaped (tempBuffer s)"
  shows "remapChannels ins numIn outs numOut n (mem, s) =
           Inr (numIn, remapMem mem ins (nat numIn) outs n (nat numOut),
                s\<lparr>channels := tempPtrs outs (nat numOut) (nat (numIn - numOut)) (channels s),
                  tempBuffer := (setSize (numIn - numOut) n (tempBuffer s))
                    \<lparr>chans := tempChans mem ins (nat numOut) n
                               (chans (setSize (numIn - numOut) n (tempBuffer s)))
                               (nat (numIn - numOut))\<rparr>\<rparr>)"
proof -
  let ?tb = "setSize (numIn - numOut) n (tempBuffer s)"
  let ?M = "remapMem mem ins (nat numIn) outs n (nat numOut)"
  note no = validCall_lengths(6) [OF v]
  have tsh: "shaped ?tb" using sh by (rule shaped_setSize)
  have tb: "numChannels ?tb = numIn - numOut" "length (chans ?tb) = nat (numIn - numOut)"
    "\<forall>c \<in> set (chans ?tb). nat n \<le> length c"
    using shaped_chans [OF tsh] by (simp_all add: setSize_shape)
  have 1: "forLoop 0 numOut (copyToOutput ins outs n) (0, mem, s\<lparr>tempBuffer := ?tb\<rparr>) =
             Inr (numOut, ?M,
                  s\<lparr>tempBuffer := ?tb, channels := outputPtrs outs (nat numOut) (channels s)\<rparr>)"
    using copy_loop [OF v, of 0 numOut "channels s" "s\<lparr>tempBuffer := ?tb\<rparr>"] no b by simp
  have M: "\<forall>k < nat numIn. ?M (ins ! k) = mem (ins ! k)"
    by (rule remapMem_inputs [OF v]) simp
  have 2: "forLoop numOut numIn (copyToTemp ins numOut n)
             (numOut, ?M,
              s\<lparr>tempBuffer := ?tb, channels := outputPtrs outs (nat numOut) (channels s)\<rparr>) =
           Inr (numIn, ?M,
                s\<lparr>channels := tempPtrs outs (nat numOut) (nat (numIn - numOut)) (channels s),
                  tempBuffer := ?tb\<lparr>chans := tempChans mem ins (nat numOut) n (chans ?tb)
                                                (nat (numIn - numOut))\<rparr>\<rparr>)"
  proof -
    have eq: "s\<lparr>tempBuffer := ?tb, channels := outputPtrs outs (nat numOut) (channels s)\<rparr> =
              s\<lparr>channels := outputPtrs outs (nat numOut) (channels s), tempBuffer := ?tb\<rparr>"
      by simp
    show ?thesis
      unfolding eq
      using temp_loop [OF v _ _ _ _ tb M, of numOut numIn "channels s" s] b
      by (simp add: tempPtrs_0)
  qed
  show ?thesis using b(1) by (simp add: remapChannels_def Let_def 1 2)
qed

subsection \<open>The buffer, and the end of the callback\<close>


lemma referTo_outputPtrs:
  assumes "N \<le> length outs" and "N \<le> length chs"
  shows "referTo (int N) (s\<lparr>channels := outputPtrs outs N chs\<rparr>) = Inr (map Ext (take N outs))"
  using assms by (auto simp add: referTo_def outputPtrs_def comp_def)

lemma referTo_tempPtrs:
  assumes "N \<le> length outs" and "N + j \<le> length chs"
  shows "referTo (int (N + j)) (s\<lparr>channels := tempPtrs outs N j chs, tempBuffer := tb\<rparr>) =
           Inr (map Ext (take N outs) @ map Temp [0..<j])"
  using assms by (auto simp add: referTo_def tempPtrs_def comp_def)

lemma exit_enter [simp]: "exit_lock (enter s) = s"
  by (simp add: exit_lock_def enter_def)

lemma dispatch_None:
  assumes "processor s = None" and "referTo t s = Inr b"
  shows "dispatch units t outs numOut n (mem, s) = Inr (mem, s)"
  using assms by (simp add: dispatch_def Let_def enter_def exit_lock_def)

lemma silenced_length:
  "m \<le> length outs \<Longrightarrow> \<forall>k<m. mem (outs ! k) \<noteq> None \<and> nat n \<le> length (the (mem (outs ! k))) \<Longrightarrow>
     map_option length (silenced mem outs n m a) = map_option length (mem a)"
proof (induction m arbitrary: a)
  case 0
  then show ?case by simp
next
  case (Suc m)
  then have IH: "\<And>a. map_option length (silenced mem outs n m a) = map_option length (mem a)"
    by simp
  from Suc.prems obtain d where d: "mem (outs ! m) = Some d" "nat n \<le> length d" by auto
  with IH [of "outs ! m"] obtain d' where d': "silenced mem outs n m (outs ! m) = Some d'"
    "length d' = length d" by (cases "silenced mem outs n m (outs ! m)") auto
  show ?case using IH [of a] d d' by simp
qed

lemma silence_step:
  assumes m: "0 \<le> i" "i < int (length outs)" 
    and ok: "\<forall>k<length outs. k \<le> nat i \<longrightarrow> mem (outs ! k) \<noteq> None \<and> nat n \<le> length (the (mem (outs ! k)))"
    and n: "0 \<le> n"
  shows "silenceOutput outs n i (silenced mem outs n (nat i), s) =
           Inr (silenced mem outs n (nat (i + 1)), s)"
proof -
  let ?k = "nat i"
  from m have k: "?k < length outs" by simp
  with ok obtain d where d: "mem (outs ! ?k) = Some d" "nat n \<le> length d" by auto
  have "map_option length (silenced mem outs n ?k (outs ! ?k)) = map_option length (mem (outs ! ?k))"
    using k ok by (intro silenced_length) auto
  with d obtain d' where d': "silenced mem outs n ?k (outs ! ?k) = Some d'" "length d' = length d"
    by (cases "silenced mem outs n ?k (outs ! ?k)") auto
  have S: "nat (i + 1) = Suc ?k" using m by simp
  show ?thesis
    unfolding S using m n d d'
    by (simp add: silenceOutput_def element_def zeromem_def)
qed

lemma silence_loop:
  assumes b: "0 \<le> numOut" "numOut \<le> int (length outs)" and n: "0 \<le> n"
    and ok: "\<forall>k<nat numOut. mem (outs ! k) \<noteq> None \<and> nat n \<le> length (the (mem (outs ! k)))"
  shows "forLoop 0 numOut (silenceOutput outs n) (mem, s) =
           Inr (silenced mem outs n (nat numOut), s)"
proof -
  let ?I = "\<lambda>i x. x = (silenced mem outs n (nat i), s)"
  have "\<exists>y. forLoop 0 numOut (silenceOutput outs n) (mem, s) = Inr y \<and> ?I numOut y"
  proof (rule forLoop_total [where I = ?I])
    show "?I 0 (mem, s)" by simp
    show "0 \<le> numOut" by (rule b(1))
  next
    fix i x
    assume i: "0 \<le> i" "i < numOut" and x: "?I i x"
    from i b have il: "i < int (length outs)" by simp
    have "\<forall>k<length outs. k \<le> nat i \<longrightarrow>
            mem (outs ! k) \<noteq> None \<and> nat n \<le> length (the (mem (outs ! k)))"
      using ok i by auto
    from silence_step [OF i(1) il this n] x
    show "\<exists>y. silenceOutput outs n i x = Inr y \<and> ?I (i + 1) y" by simp
  qed
  then show ?thesis by auto
qed

lemma silenced_zero:
  assumes "m \<le> length outs" and "a \<in> set (take m outs)"
  shows "\<exists>d. silenced mem outs n m a = Some d \<and> take (nat n) d = replicate (nat n) (Some 0)"
  using assms
proof (induction m)
  case 0
  then show ?case by simp
next
  case (Suc m)
  then show ?case by (cases "a = outs ! m") (auto simp add: take_Suc_conv_app_nth)
qed

lemma silenced_frame:
  "m \<le> length outs \<Longrightarrow> a \<notin> set (take m outs) \<Longrightarrow> silenced mem outs n m a = mem a"
  by (induction m) (auto simp add: take_Suc_conv_app_nth)

lemma remapChannels_total:
  assumes v: "validCall ins numIn outs numOut n mem"
    and b: "max numIn numOut \<le> int (length (channels s))"
    and sh: "shaped (tempBuffer s)"
  shows "remapChannels ins numIn outs numOut n (mem, s) =
           Inr (max numIn numOut, remapMem mem ins (nat numIn) outs n (nat numOut),
                remappedPlayer ins numIn outs numOut n mem s)"
proof (cases "numOut < numIn")
  case True
  with remapChannels_gt [OF v True _ sh] b show ?thesis
    by (simp add: remappedPlayer_def max_def)
next
  case False
  with remapChannels_le [OF v, of s] b show ?thesis
    by (simp add: remappedPlayer_def max_def)
qed

lemma referTo_remapped:
  assumes v: "validCall ins numIn outs numOut n mem"
    and b: "max numIn numOut \<le> int (length (channels s))"
  shows "referTo (max numIn numOut) (remappedPlayer ins numIn outs numOut n mem s) =
           Inr (unifiedBuffer outs numIn numOut)"
proof (cases "numOut < numIn")
  case True
  note no = validCall_lengths(6) [OF v] and lo = validCall_lengths(2) [OF v]
  from True no have m: "max numIn numOut = int (nat numOut + nat (numIn - numOut))" by simp
  have "nat numOut + nat (numIn - numOut) \<le> length (channels s)" using b True no by simp
  from referTo_tempPtrs [OF lo this] True show ?thesis
    unfolding m by (simp add: remappedPlayer_def unifiedBuffer_def)
next
  case False
  note no = validCall_lengths(6) [OF v] and lo = validCall_lengths(2) [OF v]
  from False no have m: "max numIn numOut = int (nat numOut)" by simp
  have "nat numOut \<le> length (channels s)" using b False no by simp
  from referTo_outputPtrs [OF lo this] False show ?thesis
    unfolding m by (simp add: remappedPlayer_def unifiedBuffer_def)
qed

lemma announced_fields [simp]:
  "processor (announced n s) = processor s"
  "isPrepared (announced n s) = isPrepared s"
  "sampleRate (announced n s) = sampleRate s"
  "blockSize (announced n s) = blockSize s"
  "numInputChans (announced n s) = numInputChans s"
  "numOutputChans (announced n s) = numOutputChans s"
  "tempBuffer (announced n s) = tempBuffer s"
  "channels (announced n s) = channels s"
  "lock (announced n s) = lock s"
  by (simp_all add: announced_def log_call_def)

lemma announced_calls:
  "calls (announced n s) = calls s
     @ (if sampleRate s > 0 \<and> blockSize s > 0 then [] else [(lock s, JAssertFailed)])
     @ [(lock s, CollectorRemoveNextBlockOfMessages n)]"
  by (simp add: announced_def log_call_def)

lemma remappedPlayer_fields [simp]:
  "processor (remappedPlayer ins numIn outs numOut n mem s) = processor s"
  "isPrepared (remappedPlayer ins numIn outs numOut n mem s) = isPrepared s"
  "sampleRate (remappedPlayer ins numIn outs numOut n mem s) = sampleRate s"
  "blockSize (remappedPlayer ins numIn outs numOut n mem s) = blockSize s"
  "numInputChans (remappedPlayer ins numIn outs numOut n mem s) = numInputChans s"
  "numOutputChans (remappedPlayer ins numIn outs numOut n mem s) = numOutputChans s"
  "lock (remappedPlayer ins numIn outs numOut n mem s) = lock s"
  "calls (remappedPlayer ins numIn outs numOut n mem s) = calls s"
  by (simp_all add: remappedPlayer_def)

lemma callback_unfold:
  "audioDeviceIOCallback units ins numIn outs numOut n (mem, s) =
     bindE (remapChannels ins numIn outs numOut n (mem, announced n s))
       (\<lambda>(t, mem2, s2). dispatch units t outs numOut n (mem2, s2))"
  by (simp add: audioDeviceIOCallback_def announced_def Let_def)

lemma callback_remapped:
  assumes v: "validCall ins numIn outs numOut n mem"
    and b: "max numIn numOut \<le> int (length (channels s))"
    and sh: "shaped (tempBuffer s)"
  shows "audioDeviceIOCallback units ins numIn outs numOut n (mem, s) =
           dispatch units (max numIn numOut) outs numOut n
             (remapMem mem ins (nat numIn) outs n (nat numOut),
              remappedPlayer ins numIn outs numOut n mem (announced n s))"
  using remapChannels_total [OF v, of "announced n s"] b sh
  by (simp add: callback_unfold)

subsection \<open>What the arrays hold after the remap step\<close>


lemma remapMem_valid:
  assumes v: "validCall ins numIn outs numOut n mem" and k: "k < nat numOut"
  shows "\<exists>d'. remapMem mem ins (nat numIn) outs n (nat numOut) (outs ! k) = Some d'
            \<and> nat n \<le> length d'"
proof -
  note lo = validCall_lengths(2) [OF v] and dist = validCall_lengths(4) [OF v]
  from validCall_out [OF v k] obtain d where d: "mem (outs ! k) = Some d" "nat n \<le> length d"
    by blast
  show ?thesis
  proof (cases "k < nat numIn")
    case True
    from validCall_in(1) [OF v True] obtain x where "mem (ins ! k) = Some x" "nat n \<le> length x"
      by blast
    with d True show ?thesis by (simp add: remapMem_at [OF lo dist k])
  next
    case False
    with d show ?thesis by (simp add: remapMem_at [OF lo dist k])
  qed
qed

lemma remapMem_copy:
  assumes v: "validCall ins numIn outs numOut n mem" and k: "k < nat numIn" "k < nat numOut"
  shows "contents (remapMem mem ins (nat numIn) outs n (nat numOut), s') n (Ext (outs ! k)) =
           contents (mem, s) n (Ext (ins ! k))"
    and "length (contents (mem, s) n (Ext (ins ! k))) = nat n"
proof -
  note lo = validCall_lengths(2) [OF v] and dist = validCall_lengths(4) [OF v]
  from validCall_in(1) [OF v k(1)] obtain x where x: "mem (ins ! k) = Some x" "nat n \<le> length x"
    by blast
  with k show "contents (remapMem mem ins (nat numIn) outs n (nat numOut), s') n (Ext (outs ! k)) =
           contents (mem, s) n (Ext (ins ! k))"
    by (simp add: contents_def remapMem_at [OF lo dist k(2)])
  from x show "length (contents (mem, s) n (Ext (ins ! k))) = nat n"
    by (simp add: contents_def)
qed

lemma remapMem_zero:
  assumes v: "validCall ins numIn outs numOut n mem" and k: "nat numIn \<le> k" "k < nat numOut"
  shows "contents (remapMem mem ins (nat numIn) outs n (nat numOut), s') n (Ext (outs ! k)) =
           replicate (nat n) (Some 0)"
proof -
  note lo = validCall_lengths(2) [OF v] and dist = validCall_lengths(4) [OF v]
  from k show ?thesis
    by (simp add: contents_def remapMem_at [OF lo dist k(2)])
qed

lemma remapped_channels_out:
  assumes v: "validCall ins numIn outs numOut n mem" and k: "k < nat numOut"
  shows "channels (remappedPlayer ins numIn outs numOut n mem s) ! k = Some (Ext (outs ! k))"
proof -
  note lo = validCall_lengths(2) [OF v]
  from k lo have "k < length (take (nat numOut) outs)" by simp
  then show ?thesis
    by (simp add: remappedPlayer_def tempPtrs_def outputPtrs_def nth_append)
qed

lemma remapped_channels_temp:
  assumes v: "validCall ins numIn outs numOut n mem" and k: "nat numOut \<le> k" "k < nat numIn"
  shows "channels (remappedPlayer ins numIn outs numOut n mem s) ! k = Some (Temp (k - nat numOut))"
proof -
  note lo = validCall_lengths(2) [OF v] and no = validCall_lengths(6) [OF v]
  from k have gt: "numOut < numIn" by simp
  from k no have j: "k - nat numOut < nat (numIn - numOut)" by simp
  from gt lo k j show ?thesis
    by (simp add: remappedPlayer_def tempPtrs_def nth_append min_def)
qed

lemma remapped_temp_contents:
  assumes v: "validCall ins numIn outs numOut n mem" and k: "nat numOut \<le> k" "k < nat numIn"
    and sh: "shaped (tempBuffer s)"
  shows "contents (M, remappedPlayer ins numIn outs numOut n mem s) n (Temp (k - nat numOut)) =
           contents (mem, s') n (Ext (ins ! k))"
proof -
  let ?tb = "setSize (numIn - numOut) n (tempBuffer s)"
  note no = validCall_lengths(6) [OF v]
  from k have gt: "numOut < numIn" by simp
  from k no have j: "k - nat numOut < nat (numIn - numOut)" by simp
  have len: "length (chans ?tb) = nat (numIn - numOut)"
    using shaped_chans(1) [OF shaped_setSize [OF sh]] by (simp add: setSize_shape)
  from validCall_in(1) [OF v k(2)] obtain x where x: "mem (ins ! k) = Some x" "nat n \<le> length x"
    by blast
  from gt j len x k show ?thesis
    by (simp add: contents_def remappedPlayer_def tempChans_at)
qed

lemma remapped_tempBuffer_le:
  "numIn \<le> numOut \<Longrightarrow> tempBuffer (remappedPlayer ins numIn outs numOut n mem s) = tempBuffer s"
  by (simp add: remappedPlayer_def)

lemma dispatch_suspended:
  assumes p: "processor s = Some p" "isSuspended units p" and r: "referTo t s = Inr b"
    and o: "0 \<le> numOut" "numOut \<le> int (length outs)" and n: "0 \<le> n"
    and ok: "\<forall>k<nat numOut. mem (outs ! k) \<noteq> None \<and> nat n \<le> length (the (mem (outs ! k)))"
  shows "dispatch units t outs numOut n (mem, s) =
           Inr (silenced mem outs n (nat numOut),
                s\<lparr>calls := calls s @ [(Suc (lock s), GetCallbackLock p),
                                        (Suc (lock s), IsSuspended p)]\<rparr>)"
  using p r by (simp add: dispatch_def Let_def silence_loop [OF o n ok] player_defs)

lemma dispatch_process:
  assumes p: "processor s = Some p" "\<not> isSuspended units p" and r: "referTo t s = Inr b"
  shows "dispatch units t outs numOut n (mem, s) =
           Inr (fst (runProcessBlock units p b n
                       (mem, log_call (ProcessBlock p b n)
                               (log_call (IsSuspended p) (log_call (GetCallbackLock p) (enter s))))),
                exit_lock (snd (runProcessBlock units p b n
                       (mem, log_call (ProcessBlock p b n)
                               (log_call (IsSuspended p) (log_call (GetCallbackLock p) (enter s)))))))"
  using p r by (simp add: dispatch_def Let_def enter_def split_beta)

subsection \<open>The whole callback, suspended processor or none\<close>


lemma newCalls_append: "calls s' = calls s @ es \<Longrightarrow> newCalls s s' = map snd es"
  by (simp add: newCalls_def newEvents_def)

lemma remappedPlayer_announced:
  "tempBuffer (remappedPlayer ins numIn outs numOut n mem (announced k s)) =
     tempBuffer (remappedPlayer ins numIn outs numOut n mem s)"
  "channels (remappedPlayer ins numIn outs numOut n mem (announced k s)) =
     channels (remappedPlayer ins numIn outs numOut n mem s)"
  by (simp_all add: remappedPlayer_def)

lemma silenced_contents:
  assumes "m \<le> length outs" and "i < m"
  shows "contents (silenced mem outs n m, s) n (Ext (outs ! i)) = replicate (nat n) (Some 0)"
proof -
  from assms have "outs ! i \<in> set (take m outs)" by (intro nth_in_take)
  from silenced_zero [OF assms(1) this, of mem n] show ?thesis
    by (auto simp add: contents_def)
qed

lemma callback_suspended:
  assumes v: "validCall ins numIn outs numOut n mem"
    and b: "max numIn numOut \<le> int (length (channels s))"
    and sh: "shaped (tempBuffer s)"
    and p: "processor s = Some p" "isSuspended units p"
  shows "audioDeviceIOCallback units ins numIn outs numOut n (mem, s) =
           Inr (silenced (remapMem mem ins (nat numIn) outs n (nat numOut)) outs n (nat numOut),
                (remappedPlayer ins numIn outs numOut n mem (announced n s))
                  \<lparr>calls := calls (announced n s)
                     @ [(Suc (lock s), GetCallbackLock p), (Suc (lock s), IsSuspended p)]\<rparr>)"
proof -
  let ?M = "remapMem mem ins (nat numIn) outs n (nat numOut)"
  let ?S = "remappedPlayer ins numIn outs numOut n mem (announced n s)"
  have r: "referTo (max numIn numOut) ?S = Inr (unifiedBuffer outs numIn numOut)"
    using referTo_remapped [OF v, of "announced n s"] b by simp
  have ok: "\<forall>k<nat numOut. ?M (outs ! k) \<noteq> None \<and> nat n \<le> length (the (?M (outs ! k)))"
    using remapMem_valid [OF v] by fastforce
  have o: "0 \<le> numOut" "numOut \<le> int (length outs)" "0 \<le> n"
    using validCall_lengths [OF v] by simp_all
  have ps: "processor ?S = Some p" using p by simp
  show ?thesis
    unfolding callback_remapped [OF v b sh]
    using dispatch_suspended [OF ps p(2) r o ok] by simp
qed

lemma callback_no_processor:
  assumes v: "validCall ins numIn outs numOut n mem"
    and b: "max numIn numOut \<le> int (length (channels s))"
    and sh: "shaped (tempBuffer s)"
    and p: "processor s = None"
  shows "audioDeviceIOCallback units ins numIn outs numOut n (mem, s) =
           Inr (remapMem mem ins (nat numIn) outs n (nat numOut),
                remappedPlayer ins numIn outs numOut n mem (announced n s))"
proof -
  let ?S = "remappedPlayer ins numIn outs numOut n mem (announced n s)"
  have r: "referTo (max numIn numOut) ?S = Inr (unifiedBuffer outs numIn numOut)"
    using referTo_remapped [OF v, of "announced n s"] b by simp
  have ps: "processor ?S = None" using p by simp
  show ?thesis
    unfolding callback_remapped [OF v b sh] by (rule dispatch_None [OF ps r])
qed

subsection \<open>The example inputs\<close>


lemma example_validCall:
  "validCall [0, 1] 2 [2] 1 2 exampleMemory"
  "validCall [0] 1 [2, 3] 2 2 exampleMemory"
  "validCall [0, 1] 2 [2, 3] 2 2 exampleMemory"
  by (simp_all add: validCall_def hasSamples_def exampleMemory_def)

lemma shaped_new: "shaped (newAudioSampleBuffer 1 1)"
  by (simp add: shaped_def newAudioSampleBuffer_def)

lemma examplePlayer_shaped: "shaped (tempBuffer examplePlayer)"
  by (simp add: examplePlayer_def setProcessor_fields prepareToPlay_fields
      AudioProcessorPlayer_new_def shaped_new)

lemma configuredPlayer_fields:
  "processor configuredPlayer = None" "channels configuredPlayer = [None, None, None, None]"
  "shaped (tempBuffer configuredPlayer)" "lock configuredPlayer = 0"
  by (simp_all add: configuredPlayer_def prepareToPlay_fields AudioProcessorPlayer_new_def
      shaped_new calloc_def int32_def numeral_eq_Suc)

section \<open>What the callback leaves alone\<close>

lemma sameLifecycle_refl [simp]: "sameLifecycle s s"
  by (simp add: sameLifecycle_def)

lemma sameLifecycle_trans: "sameLifecycle a b \<Longrightarrow> sameLifecycle b c \<Longrightarrow> sameLifecycle a c"
  by (simp add: sameLifecycle_def)

lemma sameLifecycle_buffers [simp]:
  "sameLifecycle s (x\<lparr>channels := c\<rparr>) = sameLifecycle s x"
  "sameLifecycle s (x\<lparr>tempBuffer := t\<rparr>) = sameLifecycle s x"
  by (simp_all add: sameLifecycle_def)

lemma copyToOutput_frame:
  "copyToOutput ins outs n i (t, m, x) = Inr (t', m', x') \<Longrightarrow> sameLifecycle s x \<Longrightarrow> sameLifecycle s x'"
  by (auto simp add: copyToOutput_Inr_iff)

lemma clearOutput_frame:
  "clearOutput outs n i (t, m, x) = Inr (t', m', x') \<Longrightarrow> sameLifecycle s x \<Longrightarrow> sameLifecycle s x'"
  by (auto simp add: clearOutput_Inr_iff)

lemma copyToTemp_frame:
  "copyToTemp ins numOut n i (t, m, x) = Inr (t', m', x') \<Longrightarrow> sameLifecycle s x \<Longrightarrow> sameLifecycle s x'"
  by (auto simp add: copyToTemp_Inr_iff)

lemma forLoop_frame:
  assumes "forLoop lo hi body st = Inr st'" and "sameLifecycle s (snd (snd st))"
    and "\<And>i t m x t' m' x'. body i (t, m, x) = Inr (t', m', x') \<Longrightarrow> sameLifecycle s x
            \<Longrightarrow> sameLifecycle s x'"
  shows "sameLifecycle s (snd (snd st'))"
proof -
  have "(\<lambda>i r. sameLifecycle s (snd (snd r))) (max lo hi) st'"
  proof (rule forLoop_partial [OF assms(1), where I = "\<lambda>i r. sameLifecycle s (snd (snd r))"])
    show "sameLifecycle s (snd (snd st))" by (rule assms(2))
  next
    fix i x y
    assume "sameLifecycle s (snd (snd x))" "body i x = Inr y"
    then show "sameLifecycle s (snd (snd y))"
      using assms(3) [of i "fst x" "fst (snd x)" "snd (snd x)" "fst y" "fst (snd y)" "snd (snd y)"]
      by simp
  qed
  then show ?thesis by simp
qed

lemma remapChannels_frame:
  assumes "remapChannels ins numIn outs numOut n (mem, s) = Inr (t, mem', s')"
  shows "sameLifecycle s s'"
proof (cases "numOut < numIn")
  case True
  let ?s1 = "s\<lparr>tempBuffer := setSize (numIn - numOut) n (tempBuffer s)\<rparr>"
  from assms True obtain r where
    1: "forLoop 0 numOut (copyToOutput ins outs n) (0, mem, ?s1) = Inr r"
    and 2: "forLoop numOut numIn (copyToTemp ins numOut n) r = Inr (t, mem', s')"
    by (auto simp add: remapChannels_def Let_def bindE_Inr_iff)
  have r: "sameLifecycle s (snd (snd r))"
    by (rule forLoop_frame [OF 1]) (simp, erule (1) copyToOutput_frame)
  have "sameLifecycle s (snd (snd (t, mem', s')))"
    by (rule forLoop_frame [OF 2 r]) (erule (1) copyToTemp_frame)
  then show ?thesis by simp
next
  case False
  from assms False obtain r where
    1: "forLoop 0 numIn (copyToOutput ins outs n) (0, mem, s) = Inr r"
    and 2: "forLoop numIn numOut (clearOutput outs n) r = Inr (t, mem', s')"
    by (auto simp add: remapChannels_def Let_def bindE_Inr_iff)
  have r: "sameLifecycle s (snd (snd r))"
    by (rule forLoop_frame [OF 1]) (simp, erule (1) copyToOutput_frame)
  have "sameLifecycle s (snd (snd (t, mem', s')))"
    by (rule forLoop_frame [OF 2 r]) (erule (1) clearOutput_frame)
  then show ?thesis by simp
qed

lemma silence_loop_frame:
  assumes "forLoop lo hi (silenceOutput outs n) (mem, s) = Inr (mem', s')"
  shows "s' = s"
proof -
  have "(\<lambda>i r. snd r = s) (max lo hi) (mem', s')"
  proof (rule forLoop_partial [OF assms, where I = "\<lambda>i r. snd r = s"])
    show "snd (mem, s) = s" by simp
  next
    fix i x y
    assume "snd x = s" "silenceOutput outs n i x = Inr y"
    then show "snd y = s"
      by (cases x) (auto simp add: silenceOutput_def bindE_Inr_iff zeromem_Ext_Inr_iff)
  qed
  then show ?thesis by simp
qed

lemma bufferUpd_frame:
  "sameLifecycle (snd st) (snd (bufferUpd p xs st))"
  "channels (snd (bufferUpd p xs st)) = channels (snd st)"
  by (cases p; cases st; simp)+

lemma writeBack_frame:
  "sameLifecycle (snd st) (snd (writeBack n st pn))"
  "channels (snd (writeBack n st pn)) = channels (snd st)"
  by (cases pn; simp add: writeBack_def bufferUpd_frame split: option.splits)+

lemma foldl_writeBack_frame:
  "sameLifecycle (snd st) (snd (foldl (writeBack n) st xs))
   \<and> channels (snd (foldl (writeBack n) st xs)) = channels (snd st)"
proof (induction xs arbitrary: st)
  case Nil
  show ?case by simp
next
  case (Cons x xs)
  from Cons.IH [of "writeBack n st x"] writeBack_frame [where st = st and n = n and pn = x]
  show ?case by (auto intro: sameLifecycle_trans)
qed

lemma runProcessBlock_frame:
  "sameLifecycle s (snd (runProcessBlock units p b n (mem, s)))"
  "channels (snd (runProcessBlock units p b n (mem, s))) = channels s"
  using foldl_writeBack_frame [where st = "(mem, s)" and n = n] by (simp_all add: runProcessBlock_def)

lemma dispatch_frame:
  assumes "dispatch units t outs numOut n (mem, s) = Inr (mem', s')"
  shows "\<exists>b. referTo t s = Inr b
           \<and> sameLifecycle (s\<lparr>calls := calls s'\<rparr>) s'
           \<and> channels s' = channels s
           \<and> calls s' = calls s @
               (case processor s of None \<Rightarrow> []
                | Some p \<Rightarrow> [(Suc (lock s), GetCallbackLock p), (Suc (lock s), IsSuspended p)]
                    @ (if isSuspended units p then []
                       else [(Suc (lock s), ProcessBlock p b n)]))"
proof -
  from assms obtain b where b: "referTo t s = Inr b"
    by (auto simp add: dispatch_def bindE_Inr_iff)
  show ?thesis
  proof (cases "processor s")
    case None
    with assms b have "s' = s" by (simp add: dispatch_None)
    with None b show ?thesis by simp
  next
    case (Some p)
    show ?thesis
    proof (cases "isSuspended units p")
      case True
      let ?s2 = "log_call (IsSuspended p) (log_call (GetCallbackLock p) (enter s))"
      from assms b Some True obtain m3 s3 where
        l: "forLoop 0 numOut (silenceOutput outs n) (mem, ?s2) = Inr (m3, s3)"
        and e: "s' = exit_lock s3"
        by (auto simp add: dispatch_def bindE_Inr_iff Let_def enter_def)
      from silence_loop_frame [OF l] e have "s' = exit_lock ?s2" by simp
      with Some True b show ?thesis
        by (auto simp add: player_defs sameLifecycle_def)
    next
      case False
      let ?s2 = "log_call (ProcessBlock p b n)
                   (log_call (IsSuspended p) (log_call (GetCallbackLock p) (enter s)))"
      from assms b Some False have e: "s' = exit_lock (snd (runProcessBlock units p b n (mem, ?s2)))"
        by (simp add: dispatch_process)
      from runProcessBlock_frame [where s = ?s2 and units = units and p = p and b = b and n = n
          and mem = mem] e Some False b
      show ?thesis
        by (auto simp add: player_defs sameLifecycle_def)
    qed
  qed
qed

lemma callback_frame:
  assumes "audioDeviceIOCallback units ins numIn outs numOut n (mem, s) = Inr (mem', s')"
  shows "\<exists>b. sameLifecycle (s\<lparr>calls := calls s'\<rparr>) s'
           \<and> calls s' = calls s @
               (if sampleRate s > 0 \<and> blockSize s > 0 then [] else [(lock s, JAssertFailed)])
               @ [(lock s, CollectorRemoveNextBlockOfMessages n)]
               @ (case processor s of None \<Rightarrow> []
                  | Some p \<Rightarrow> [(Suc (lock s), GetCallbackLock p), (Suc (lock s), IsSuspended p)]
                      @ (if isSuspended units p then []
                         else [(Suc (lock s), ProcessBlock p b n)]))"
proof -
  from assms obtain t m2 s2 where
    r: "remapChannels ins numIn outs numOut n (mem, announced n s) = Inr (t, m2, s2)"
    and d: "dispatch units t outs numOut n (m2, s2) = Inr (mem', s')"
    by (auto simp add: callback_unfold bindE_Inr_iff)
  from remapChannels_frame [OF r] have f: "sameLifecycle (announced n s) s2" .
  from dispatch_frame [OF d] obtain b where
    g: "sameLifecycle (s2\<lparr>calls := calls s'\<rparr>) s'"
    and c: "calls s' = calls s2 @
               (case processor s2 of None \<Rightarrow> []
                | Some p \<Rightarrow> [(Suc (lock s2), GetCallbackLock p), (Suc (lock s2), IsSuspended p)]
                    @ (if isSuspended units p then []
                       else [(Suc (lock s2), ProcessBlock p b n)]))"
    by blast
  from f have s2: "processor s2 = processor s" "lock s2 = lock s" "calls s2 = calls (announced n s)"
    by (simp_all add: sameLifecycle_def)
  have 1: "sameLifecycle (s\<lparr>calls := calls s'\<rparr>) s'"
    using f g by (simp add: sameLifecycle_def)
  have 2: "calls s' = calls s @
               (if sampleRate s > 0 \<and> blockSize s > 0 then [] else [(lock s, JAssertFailed)])
               @ [(lock s, CollectorRemoveNextBlockOfMessages n)]
               @ (case processor s of None \<Rightarrow> []
                  | Some p \<Rightarrow> [(Suc (lock s), GetCallbackLock p), (Suc (lock s), IsSuspended p)]
                      @ (if isSuspended units p then []
                         else [(Suc (lock s), ProcessBlock p b n)]))"
    using c unfolding s2 announced_calls by simp
  from 1 2 show ?thesis by blast
qed

section \<open>The lifecycle invariant\<close>


lemma psr_append:
  "preparesSinceRelease p (cs @ ds) = foldl (lifecycleStep p) (preparesSinceRelease p cs) ds"
  by (simp add: preparesSinceRelease_def)

lemma psr_other:
  "\<forall>c \<in> set ds. \<not> isLifecycleCall c \<Longrightarrow> foldl (lifecycleStep p) k ds = k"
proof (induction ds arbitrary: k)
  case Nil
  show ?case by simp
next
  case (Cons c ds)
  then have "lifecycleStep p k c = k" by (cases c) (simp_all add: lifecycleStep_def)
  with Cons show ?case by simp
qed

lemma lifecycleInvariant_new: "lifecycleInvariant AudioProcessorPlayer_new"
  by (simp add: lifecycleInvariant_def AudioProcessorPlayer_new_def preparesSinceRelease_def)

lemma lifecycleInvariant_setProcessor:
  assumes "lifecycleInvariant s"
  shows "lifecycleInvariant (setProcessor q s)"
  unfolding lifecycleInvariant_def
proof
  fix p
  from assms have IH: "preparesSinceRelease p (map snd (calls s)) =
            (if processor s = Some p \<and> isPrepared s \<and> 0 < sampleRate s \<and> 0 < blockSize s
             then 1 else 0)"
    by (simp add: lifecycleInvariant_def)
  show "preparesSinceRelease p (map snd (calls (setProcessor q s))) =
          (if processor (setProcessor q s) = Some p \<and> isPrepared (setProcessor q s)
              \<and> 0 < sampleRate (setProcessor q s) \<and> 0 < blockSize (setProcessor q s)
           then 1 else 0)"
    unfolding setProcessor_calls setProcessor_fields map_append psr_append IH
    by (auto simp add: lifecycleStep_def split: option.splits)
qed

lemma lifecycleInvariant_prepareToPlay:
  assumes "lifecycleInvariant s"
  shows "lifecycleInvariant (prepareToPlay sr bs cin cout s)"
  unfolding lifecycleInvariant_def
proof
  fix p
  from assms have IH: "preparesSinceRelease p (map snd (calls s)) =
            (if processor s = Some p \<and> isPrepared s \<and> 0 < sampleRate s \<and> 0 < blockSize s
             then 1 else 0)"
    by (simp add: lifecycleInvariant_def)
  show "preparesSinceRelease p (map snd (calls (prepareToPlay sr bs cin cout s))) =
          (if processor (prepareToPlay sr bs cin cout s) = Some p
              \<and> isPrepared (prepareToPlay sr bs cin cout s)
              \<and> 0 < sampleRate (prepareToPlay sr bs cin cout s)
              \<and> 0 < blockSize (prepareToPlay sr bs cin cout s)
           then 1 else 0)"
    unfolding prepareToPlay_calls prepareToPlay_fields map_append psr_append IH
    by (auto simp add: lifecycleStep_def split: option.splits)
qed

lemma lifecycleInvariant_audioDeviceStopped:
  assumes "lifecycleInvariant s"
  shows "lifecycleInvariant (audioDeviceStopped s)"
  unfolding lifecycleInvariant_def
proof
  fix p
  from assms have IH: "preparesSinceRelease p (map snd (calls s)) =
            (if processor s = Some p \<and> isPrepared s \<and> 0 < sampleRate s \<and> 0 < blockSize s
             then 1 else 0)"
    by (simp add: lifecycleInvariant_def)
  show "preparesSinceRelease p (map snd (calls (audioDeviceStopped s))) =
          (if processor (audioDeviceStopped s) = Some p \<and> isPrepared (audioDeviceStopped s)
              \<and> 0 < sampleRate (audioDeviceStopped s) \<and> 0 < blockSize (audioDeviceStopped s)
           then 1 else 0)"
    unfolding audioDeviceStopped_calls audioDeviceStopped_fields map_append psr_append IH
    by (auto simp add: lifecycleStep_def split: option.splits)
qed

lemma lifecycleInvariant_handleIncomingMidiMessage:
  assumes "lifecycleInvariant s"
  shows "lifecycleInvariant (handleIncomingMidiMessage message s)"
  using assms
  by (simp add: lifecycleInvariant_def handleIncomingMidiMessage_def log_call_def psr_append
      lifecycleStep_def)

lemma lifecycleInvariant_callback:
  assumes "lifecycleInvariant s"
    and "audioDeviceIOCallback units ins numIn outs numOut n (mem, s) = Inr (mem', s')"
  shows "lifecycleInvariant s'"
proof -
  from callback_frame [OF assms(2)] obtain b where
    f: "sameLifecycle (s\<lparr>calls := calls s'\<rparr>) s'"
    and c: "calls s' = calls s @
               (if sampleRate s > 0 \<and> blockSize s > 0 then [] else [(lock s, JAssertFailed)])
               @ [(lock s, CollectorRemoveNextBlockOfMessages n)]
               @ (case processor s of None \<Rightarrow> []
                  | Some p \<Rightarrow> [(Suc (lock s), GetCallbackLock p), (Suc (lock s), IsSuspended p)]
                      @ (if isSuspended units p then []
                         else [(Suc (lock s), ProcessBlock p b n)]))"
    by blast
  have "\<And>p. preparesSinceRelease p (map snd (calls s')) = preparesSinceRelease p (map snd (calls s))"
    unfolding c map_append psr_append
    by (rule psr_other) (auto split: option.splits)
  with assms(1) f show ?thesis
    by (simp add: lifecycleInvariant_def sameLifecycle_def)
qed

lemma lifecycleInvariant_perform:
  assumes "lifecycleInvariant s" and "perform op s = Inr s'"
  shows "lifecycleInvariant s'"
proof (cases op)
  case (OpAudioDeviceIOCallback units ins numIn outs numOut n mem)
  with assms(2) obtain mem' where
    "audioDeviceIOCallback units ins numIn outs numOut n (mem, s) = Inr (mem', s')"
    by (auto split: sum.splits)
  with assms(1) show ?thesis by (rule lifecycleInvariant_callback)
qed (use assms in \<open>auto simp add: lifecycleInvariant_setProcessor lifecycleInvariant_prepareToPlay
      lifecycleInvariant_audioDeviceStopped lifecycleInvariant_handleIncomingMidiMessage
      audioDeviceAboutToStart_def\<close>)

lemma lifecycleInvariant_performAll:
  "lifecycleInvariant s \<Longrightarrow> performAll ops s = Inr s' \<Longrightarrow> lifecycleInvariant s'"
proof (induction ops arbitrary: s)
  case Nil
  then show ?case by simp
next
  case (Cons op ops)
  from Cons.prems(2) obtain s1 where s1: "perform op s = Inr s1" "performAll ops s1 = Inr s'"
    by (auto split: sum.splits)
  from lifecycleInvariant_perform [OF Cons.prems(1) s1(1)] s1(2) show ?case
    by (rule Cons.IH)
qed

lemma lifecycleInvariant_slot: "lifecycleInvariant s \<Longrightarrow> configuredSlotInvariant s"
  by (simp add: lifecycleInvariant_def configuredSlotInvariant_def split: option.splits)

section \<open>A channel array that is too small\<close>







section \<open>A processor that runs\<close>


lemma callback_process:
  assumes v: "validCall ins numIn outs numOut n mem"
    and b: "max numIn numOut \<le> int (length (channels s))"
    and sh: "shaped (tempBuffer s)"
    and p: "processor s = Some p" "\<not> isSuspended units p"
  shows "\<exists>mem' s'. audioDeviceIOCallback units ins numIn outs numOut n (mem, s) = Inr (mem', s')
           \<and> channels s' = channels (remappedPlayer ins numIn outs numOut n mem s)
           \<and> calls s' = calls (announced n s)
               @ [(Suc (lock s), GetCallbackLock p), (Suc (lock s), IsSuspended p),
                  (Suc (lock s), ProcessBlock p (unifiedBuffer outs numIn numOut) n)]"
proof -
  let ?M = "remapMem mem ins (nat numIn) outs n (nat numOut)"
  let ?S = "remappedPlayer ins numIn outs numOut n mem (announced n s)"
  let ?b = "unifiedBuffer outs numIn numOut"
  let ?s2 = "log_call (ProcessBlock p ?b n)
               (log_call (IsSuspended p) (log_call (GetCallbackLock p) (enter ?S)))"
  have r: "referTo (max numIn numOut) ?S = Inr ?b"
    using referTo_remapped [OF v, of "announced n s"] b by simp
  have ps: "processor ?S = Some p" using p by simp
  have 1: "audioDeviceIOCallback units ins numIn outs numOut n (mem, s) =
             Inr (fst (runProcessBlock units p ?b n (?M, ?s2)),
                  exit_lock (snd (runProcessBlock units p ?b n (?M, ?s2))))"
    unfolding callback_remapped [OF v b sh] by (rule dispatch_process [OF ps p(2) r])
  from runProcessBlock_frame [where s = ?s2 and units = units and p = p and b = ?b and n = n
      and mem = ?M]
  have 2: "channels (exit_lock (snd (runProcessBlock units p ?b n (?M, ?s2)))) =
             channels (remappedPlayer ins numIn outs numOut n mem s)"
    and 3: "calls (exit_lock (snd (runProcessBlock units p ?b n (?M, ?s2)))) =
              calls (announced n s)
               @ [(Suc (lock s), GetCallbackLock p), (Suc (lock s), IsSuspended p),
                  (Suc (lock s), ProcessBlock p ?b n)]"
    by (simp_all add: sameLifecycle_def player_defs remappedPlayer_announced)
  from 1 2 3 show ?thesis by blast
qed


subsection \<open>The slots of the channel array that are written\<close>





lemma stoppedPlayer_fields:
  "processor stoppedPlayer = Some 7" "sampleRate stoppedPlayer = 0" "blockSize stoppedPlayer = 0"
  "\<not> isPrepared stoppedPlayer" "lock stoppedPlayer = 0"
  "channels stoppedPlayer = [None, None, None, None]" "shaped (tempBuffer stoppedPlayer)"
  by (simp_all add: stoppedPlayer_def audioDeviceStopped_fields examplePlayer_fields
      shaped_setSize examplePlayer_shaped)

lemma callback_process_unitCalls:
  assumes v: "validCall ins numIn outs numOut n mem"
    and b: "max numIn numOut \<le> int (length (channels s))"
    and sh: "shaped (tempBuffer s)"
    and p: "processor s = Some p" "\<not> isSuspended units p"
  shows "\<exists>mem' s'. audioDeviceIOCallback units ins numIn outs numOut n (mem, s) = Inr (mem', s')
           \<and> unitCalls p (newCalls s s') =
               [GetCallbackLock p, IsSuspended p,
                ProcessBlock p (unifiedBuffer outs numIn numOut) n]"
proof -
  from callback_process [OF v b sh p] obtain mem' s' where
    r: "audioDeviceIOCallback units ins numIn outs numOut n (mem, s) = Inr (mem', s')"
    and c: "calls s' = calls (announced n s)
               @ [(Suc (lock s), GetCallbackLock p), (Suc (lock s), IsSuspended p),
                  (Suc (lock s), ProcessBlock p (unifiedBuffer outs numIn numOut) n)]"
    by blast
  have "calls s' = calls s
          @ ((if sampleRate s > 0 \<and> blockSize s > 0 then [] else [(lock s, JAssertFailed)])
             @ [(lock s, CollectorRemoveNextBlockOfMessages n),
                (Suc (lock s), GetCallbackLock p), (Suc (lock s), IsSuspended p),
                (Suc (lock s), ProcessBlock p (unifiedBuffer outs numIn numOut) n)])"
    unfolding c announced_calls by simp
  from newCalls_append [OF this]
  have "unitCalls p (newCalls s s') =
               [GetCallbackLock p, IsSuspended p,
                ProcessBlock p (unifiedBuffer outs numIn numOut) n]"
    by (simp add: unitCalls_def)
  with r show ?thesis by blast
qed

section \<open>The scratch buffer keeps its shape\<close>

lemma shaped_update:
  assumes "shaped b" and "j < length (chans b)" and "length xs = length (chans b ! j)"
  shows "shaped (b\<lparr>chans := (chans b)[j := xs]\<rparr>)"
proof -
  from assms(1) have l: "length (chans b) = nat (numChannels b)"
    and e: "\<forall>c \<in> set (chans b). length c = nat (size_samples b)"
    by (simp_all add: shaped_def)
  from assms(2) e have "length (chans b ! j) = nat (size_samples b)" by simp
  with assms(3) have x: "length xs = nat (size_samples b)" by simp
  have "set ((chans b)[j := xs]) \<subseteq> insert xs (set (chans b))" by (rule set_update_subset_insert)
  with e x have "\<forall>c \<in> set ((chans b)[j := xs]). length c = nat (size_samples b)" by auto
  with l show ?thesis by (simp add: shaped_def)
qed

lemma copyToOutput_shaped:
  "copyToOutput ins outs n i (t, m, x) = Inr (t', m', x') \<Longrightarrow> shaped (tempBuffer x)
     \<Longrightarrow> shaped (tempBuffer x')"
  by (auto simp add: copyToOutput_Inr_iff)

lemma clearOutput_shaped:
  "clearOutput outs n i (t, m, x) = Inr (t', m', x') \<Longrightarrow> shaped (tempBuffer x)
     \<Longrightarrow> shaped (tempBuffer x')"
  by (auto simp add: clearOutput_Inr_iff)

lemma copyToTemp_shaped:
  assumes "copyToTemp ins numOut n i (t, m, x) = Inr (t', m', x')" and "shaped (tempBuffer x)"
  shows "shaped (tempBuffer x')"
proof -
  let ?j = "nat (i - numOut)"
  from assms(1) obtain d where
    j: "?j < length (chans (tempBuffer x))"
    and d: "nat n \<le> length (chans (tempBuffer x) ! ?j)" "nat n \<le> length d"
    and x': "tempBuffer x' = (tempBuffer x)\<lparr>chans := (chans (tempBuffer x))
               [?j := take (nat n) d @ drop (nat n) (chans (tempBuffer x) ! ?j)]\<rparr>"
    unfolding copyToTemp_Inr_iff by auto
  have "length (take (nat n) d @ drop (nat n) (chans (tempBuffer x) ! ?j)) =
          length (chans (tempBuffer x) ! ?j)"
    using d by simp
  from shaped_update [OF assms(2) j this] show ?thesis by (simp only: x')
qed

lemma forLoop_shaped:
  assumes "forLoop lo hi body st = Inr st'" and "shaped (tempBuffer (snd (snd st)))"
    and "\<And>i t m x t' m' x'. body i (t, m, x) = Inr (t', m', x') \<Longrightarrow> shaped (tempBuffer x)
            \<Longrightarrow> shaped (tempBuffer x')"
  shows "shaped (tempBuffer (snd (snd st')))"
proof -
  have "(\<lambda>i r. shaped (tempBuffer (snd (snd r)))) (max lo hi) st'"
  proof (rule forLoop_partial [OF assms(1), where I = "\<lambda>i r. shaped (tempBuffer (snd (snd r)))"])
    show "shaped (tempBuffer (snd (snd st)))" by (rule assms(2))
  next
    fix i x y
    assume "shaped (tempBuffer (snd (snd x)))" "body i x = Inr y"
    then show "shaped (tempBuffer (snd (snd y)))"
      using assms(3) [of i "fst x" "fst (snd x)" "snd (snd x)" "fst y" "fst (snd y)" "snd (snd y)"]
      by simp
  qed
  then show ?thesis by simp
qed

lemma remapChannels_shaped:
  assumes "remapChannels ins numIn outs numOut n (mem, s) = Inr (t, mem', s')"
    and "shaped (tempBuffer s)"
  shows "shaped (tempBuffer s')"
proof (cases "numOut < numIn")
  case True
  let ?s1 = "s\<lparr>tempBuffer := setSize (numIn - numOut) n (tempBuffer s)\<rparr>"
  from assms True obtain r where
    1: "forLoop 0 numOut (copyToOutput ins outs n) (0, mem, ?s1) = Inr r"
    and 2: "forLoop numOut numIn (copyToTemp ins numOut n) r = Inr (t, mem', s')"
    by (auto simp add: remapChannels_def Let_def bindE_Inr_iff)
  have r: "shaped (tempBuffer (snd (snd r)))"
    by (rule forLoop_shaped [OF 1]) (simp add: shaped_setSize assms(2), erule (1) copyToOutput_shaped)
  have "shaped (tempBuffer (snd (snd (t, mem', s'))))"
    by (rule forLoop_shaped [OF 2 r]) (erule (1) copyToTemp_shaped)
  then show ?thesis by simp
next
  case False
  from assms False obtain r where
    1: "forLoop 0 numIn (copyToOutput ins outs n) (0, mem, s) = Inr r"
    and 2: "forLoop numIn numOut (clearOutput outs n) r = Inr (t, mem', s')"
    by (auto simp add: remapChannels_def Let_def bindE_Inr_iff)
  have r: "shaped (tempBuffer (snd (snd r)))"
    by (rule forLoop_shaped [OF 1]) (simp add: assms(2), erule (1) copyToOutput_shaped)
  have "shaped (tempBuffer (snd (snd (t, mem', s'))))"
    by (rule forLoop_shaped [OF 2 r]) (erule (1) clearOutput_shaped)
  then show ?thesis by simp
qed

lemma writeBack_shaped:
  assumes "shaped (tempBuffer (snd st))"
  shows "shaped (tempBuffer (snd (writeBack n st pn)))"
proof (cases pn)
  case (Pair p new)
  obtain mem s where st: "st = (mem, s)" by (cases st)
  show ?thesis
  proof (cases p)
    case (Ext a)
    with Pair st assms show ?thesis by (simp add: writeBack_def split: option.splits)
  next
    case (Temp c)
    show ?thesis
    proof (cases "c < length (chans (tempBuffer s))")
      case False
      with Pair st Temp assms show ?thesis by (simp add: writeBack_def)
    next
      case True
      let ?d = "chans (tempBuffer s) ! c"
      let ?k = "min (nat n) (length ?d)"
      have "length (take ?k new @ drop (min ?k (length new)) ?d) = length ?d" by auto
      from shaped_update [OF _ True this] assms st
      have "shaped ((tempBuffer s)\<lparr>chans := (chans (tempBuffer s))
               [c := take ?k new @ drop (min ?k (length new)) ?d]\<rparr>)" by simp
      with Pair st Temp True show ?thesis by (simp add: writeBack_def)
    qed
  qed
qed

lemma foldl_writeBack_shaped:
  "shaped (tempBuffer (snd st)) \<Longrightarrow> shaped (tempBuffer (snd (foldl (writeBack n) st xs)))"
  by (induction xs arbitrary: st) (simp_all add: writeBack_shaped)

lemma dispatch_shaped:
  assumes "dispatch units t outs numOut n (mem, s) = Inr (mem', s')" and "shaped (tempBuffer s)"
  shows "shaped (tempBuffer s')"
proof -
  from assms obtain b where b: "referTo t s = Inr b"
    by (auto simp add: dispatch_def bindE_Inr_iff)
  show ?thesis
  proof (cases "processor s")
    case None
    with assms b show ?thesis by (simp add: dispatch_None)
  next
    case (Some p)
    show ?thesis
    proof (cases "isSuspended units p")
      case True
      let ?s2 = "log_call (IsSuspended p) (log_call (GetCallbackLock p) (enter s))"
      from assms b Some True obtain m3 s3 where
        l: "forLoop 0 numOut (silenceOutput outs n) (mem, ?s2) = Inr (m3, s3)"
        and e: "s' = exit_lock s3"
        by (auto simp add: dispatch_def bindE_Inr_iff Let_def enter_def)
      from silence_loop_frame [OF l] e assms(2) show ?thesis by (simp add: player_defs)
    next
      case False
      let ?s2 = "log_call (ProcessBlock p b n)
                   (log_call (IsSuspended p) (log_call (GetCallbackLock p) (enter s)))"
      from assms b Some False have e: "s' = exit_lock (snd (runProcessBlock units p b n (mem, ?s2)))"
        by (simp add: dispatch_process)
      have "shaped (tempBuffer (snd (runProcessBlock units p b n (mem, ?s2))))"
        unfolding runProcessBlock_def
        by (rule foldl_writeBack_shaped) (simp add: player_defs assms(2))
      with e show ?thesis by (simp add: exit_lock_def)
    qed
  qed
qed

lemma callback_shaped:
  assumes "audioDeviceIOCallback units ins numIn outs numOut n (mem, s) = Inr (mem', s')"
    and "shaped (tempBuffer s)"
  shows "shaped (tempBuffer s')"
proof -
  from assms(1) obtain t m2 s2 where
    r: "remapChannels ins numIn outs numOut n (mem, announced n s) = Inr (t, m2, s2)"
    and d: "dispatch units t outs numOut n (m2, s2) = Inr (mem', s')"
    by (auto simp add: callback_unfold bindE_Inr_iff)
  from remapChannels_shaped [OF r] assms(2) have "shaped (tempBuffer s2)" by simp
  with d show ?thesis by (rule dispatch_shaped)
qed

lemma perform_shaped:
  assumes "perform op s = Inr s'" and "shaped (tempBuffer s)"
  shows "shaped (tempBuffer s')"
proof (cases op)
  case (OpAudioDeviceIOCallback units ins numIn outs numOut n mem)
  with assms(1) obtain mem' where
    "audioDeviceIOCallback units ins numIn outs numOut n (mem, s) = Inr (mem', s')"
    by (auto split: sum.splits)
  then show ?thesis using assms(2) by (rule callback_shaped)
qed (use assms in \<open>auto simp add: setProcessor_fields prepareToPlay_fields
      audioDeviceStopped_fields audioDeviceAboutToStart_def handleIncomingMidiMessage_def
      log_call_def shaped_setSize\<close>)

lemma performAll_shaped:
  "performAll ops s = Inr s' \<Longrightarrow> shaped (tempBuffer s) \<Longrightarrow> shaped (tempBuffer s')"
proof (induction ops arbitrary: s)
  case Nil
  then show ?case by simp
next
  case (Cons op ops)
  from Cons.prems(1) obtain s1 where s1: "perform op s = Inr s1" "performAll ops s1 = Inr s'"
    by (auto split: sum.splits)
  from perform_shaped [OF s1(1) Cons.prems(2)] show ?case
    by (rule Cons.IH [OF s1(2)])
qed

lemma reachable_shaped:
  "performAll ops AudioProcessorPlayer_new = Inr s \<Longrightarrow> shaped (tempBuffer s)"
  by (erule performAll_shaped) (simp add: AudioProcessorPlayer_new_def shaped_new)

section \<open>The channel remap and the three ways a block ends\<close>

text \<open>
  C3: when the device hands over more input than output channels (\<open>numIn > numOut \<ge> 0\<close>,
  valid and pairwise different arrays, a \<^verbatim>\<open>channels\<close> block of at least \<open>numIn\<close> slots),
  the remap step returns \<open>numIn\<close> as the unified channel count, and the buffer built from
  \<^verbatim>\<open>channels\<close> refers to \<open>numIn\<close> channels: the first \<open>numOut\<close> are the output arrays,
  each holding a copy of the input channel of the same index, and nothing else in the
  caller's memory is written; the remaining \<open>numIn - numOut\<close> are channels of
  \<^verbatim>\<open>tempBuffer\<close>, none of them one of the caller's arrays, each holding a copy of the
  corresponding surplus input channel. A processor that is installed and not suspended
  receives \<^verbatim>\<open>processBlock\<close> with exactly this buffer.
\<close>

theorem remap_surplus_inputs:
  assumes "validCall ins numIn outs numOut n mem"
    and "numOut < numIn"
    and "numIn \<le> int (length (channels s))"
    and "shaped (tempBuffer s)"
  shows "(\<exists>mem' s'.
           remapChannels ins numIn outs numOut n (mem, s) = Inr (numIn, mem', s')
         \<and> referTo numIn s' = Inr (unifiedBuffer outs numIn numOut)
         \<and> length (unifiedBuffer outs numIn numOut) = nat numIn
         \<and> (\<forall>i<nat numOut.
               channels s' ! i = Some (Ext (outs ! i))
             \<and> contents (mem', s') n (Ext (outs ! i)) = contents (mem, s) n (Ext (ins ! i)))
         \<and> (\<forall>a. a \<notin> set (take (nat numOut) outs) \<longrightarrow> mem' a = mem a)
         \<and> (\<forall>i. nat numOut \<le> i \<and> i < nat numIn \<longrightarrow>
               channels s' ! i = Some (Temp (i - nat numOut))
             \<and> (\<forall>a. channels s' ! i \<noteq> Some (Ext a))
             \<and> contents (mem', s') n (Temp (i - nat numOut)) = contents (mem, s) n (Ext (ins ! i)))
         \<and> (\<forall>i<nat numIn. length (contents (mem, s) n (Ext (ins ! i))) = nat n))
       \<and> (\<forall>units p. processor s = Some p \<and> \<not> isSuspended units p \<longrightarrow>
             (\<exists>mem2 s2.
                 audioDeviceIOCallback units ins numIn outs numOut n (mem, s) = Inr (mem2, s2)
               \<and> unitCalls p (newCalls s s2) =
                   [GetCallbackLock p, IsSuspended p,
                    ProcessBlock p (unifiedBuffer outs numIn numOut) n]))"
proof -
  note v = assms(1)
  let ?M = "remapMem mem ins (nat numIn) outs n (nat numOut)"
  let ?S = "remappedPlayer ins numIn outs numOut n mem s"
  from assms have b: "max numIn numOut \<le> int (length (channels s))" by simp
  from assms(2) have mx: "max numIn numOut = numIn" by simp
  have 1: "remapChannels ins numIn outs numOut n (mem, s) = Inr (numIn, ?M, ?S)"
    using remapChannels_total [OF v b assms(4)] mx by simp
  have 2: "referTo numIn ?S = Inr (unifiedBuffer outs numIn numOut)"
    using referTo_remapped [OF v b] mx by simp
  have 3: "length (unifiedBuffer outs numIn numOut) = nat numIn"
    using validCall_lengths(2,6) [OF v] assms(2) by (simp add: unifiedBuffer_def)
  have 4: "\<forall>i<nat numOut.
               channels ?S ! i = Some (Ext (outs ! i))
             \<and> contents (?M, ?S) n (Ext (outs ! i)) = contents (mem, s) n (Ext (ins ! i))"
  proof (intro allI impI)
    fix i assume i: "i < nat numOut"
    with assms(2) have "i < nat numIn" by simp
    from remapMem_copy(1) [OF v this i] remapped_channels_out [OF v i]
    show "channels ?S ! i = Some (Ext (outs ! i))
             \<and> contents (?M, ?S) n (Ext (outs ! i)) = contents (mem, s) n (Ext (ins ! i))"
      by simp
  qed
  have 5: "\<forall>a. a \<notin> set (take (nat numOut) outs) \<longrightarrow> ?M a = mem a"
    using validCall_lengths(2) [OF v] by (simp add: remapMem_frame)
  have 6: "\<forall>i. nat numOut \<le> i \<and> i < nat numIn \<longrightarrow>
               channels ?S ! i = Some (Temp (i - nat numOut))
             \<and> (\<forall>a. channels ?S ! i \<noteq> Some (Ext a))
             \<and> contents (?M, ?S) n (Temp (i - nat numOut)) = contents (mem, s) n (Ext (ins ! i))"
  proof (intro allI impI, elim conjE)
    fix i assume i: "nat numOut \<le> i" "i < nat numIn"
    from remapped_channels_temp [OF v i] remapped_temp_contents [OF v i assms(4)]
    show "channels ?S ! i = Some (Temp (i - nat numOut))
             \<and> (\<forall>a. channels ?S ! i \<noteq> Some (Ext a))
             \<and> contents (?M, ?S) n (Temp (i - nat numOut)) = contents (mem, s) n (Ext (ins ! i))"
      by simp
  qed
  have 7: "\<forall>i<nat numIn. length (contents (mem, s) n (Ext (ins ! i))) = nat n"
  proof (intro allI impI)
    fix i assume "i < nat numIn"
    from validCall_in(1) [OF v this] obtain x where "mem (ins ! i) = Some x" "nat n \<le> length x"
      by blast
    then show "length (contents (mem, s) n (Ext (ins ! i))) = nat n"
      by (simp add: contents_def)
  qed
  have 8: "\<forall>units p. processor s = Some p \<and> \<not> isSuspended units p \<longrightarrow>
             (\<exists>mem2 s2.
                 audioDeviceIOCallback units ins numIn outs numOut n (mem, s) = Inr (mem2, s2)
               \<and> unitCalls p (newCalls s s2) =
                   [GetCallbackLock p, IsSuspended p,
                    ProcessBlock p (unifiedBuffer outs numIn numOut) n])"
    using callback_process_unitCalls [OF v b assms(4)] by blast
  from 1 2 3 4 5 6 7 have "\<exists>mem' s'.
           remapChannels ins numIn outs numOut n (mem, s) = Inr (numIn, mem', s')
         \<and> referTo numIn s' = Inr (unifiedBuffer outs numIn numOut)
         \<and> length (unifiedBuffer outs numIn numOut) = nat numIn
         \<and> (\<forall>i<nat numOut.
               channels s' ! i = Some (Ext (outs ! i))
             \<and> contents (mem', s') n (Ext (outs ! i)) = contents (mem, s) n (Ext (ins ! i)))
         \<and> (\<forall>a. a \<notin> set (take (nat numOut) outs) \<longrightarrow> mem' a = mem a)
         \<and> (\<forall>i. nat numOut \<le> i \<and> i < nat numIn \<longrightarrow>
               channels s' ! i = Some (Temp (i - nat numOut))
             \<and> (\<forall>a. channels s' ! i \<noteq> Some (Ext a))
             \<and> contents (mem', s') n (Temp (i - nat numOut)) = contents (mem, s) n (Ext (ins ! i)))
         \<and> (\<forall>i<nat numIn. length (contents (mem, s) n (Ext (ins ! i))) = nat n)"
    by blast
  with 8 show ?thesis by blast
qed

theorem remap_surplus_inputs_witness:
  "validCall [0, 1] 2 [2] 1 2 exampleMemory \<and> (1::int) < 2
   \<and> 2 \<le> int (length (channels examplePlayer)) \<and> shaped (tempBuffer examplePlayer)
   \<and> (\<exists>mem' s'.
           remapChannels [0, 1] 2 [2] 1 2 (exampleMemory, examplePlayer) = Inr (2, mem', s')
         \<and> referTo 2 s' = Inr [Ext 2, Temp 0]
         \<and> channels s' ! 0 = Some (Ext 2)
         \<and> contents (mem', s') 2 (Ext 2) = [Some 5, Some 6]
         \<and> channels s' ! 1 = Some (Temp 0)
         \<and> contents (mem', s') 2 (Temp 0) = [Some 7, Some 8])"
proof -
  have h: "validCall [0, 1] 2 [2] 1 2 exampleMemory" "(1::int) < 2"
    "2 \<le> int (length (channels examplePlayer))" "shaped (tempBuffer examplePlayer)"
    by (rule example_validCall, simp, simp add: examplePlayer_fields, rule examplePlayer_shaped)
  from remap_surplus_inputs [OF h, THEN conjunct1] obtain mem' s' where
    r: "remapChannels [0, 1] 2 [2] 1 2 (exampleMemory, examplePlayer) = Inr (2, mem', s')"
      "referTo 2 s' = Inr (unifiedBuffer [2] 2 1)"
      "\<forall>i<nat 1. channels s' ! i = Some (Ext ([2] ! i))
         \<and> contents (mem', s') 2 (Ext ([2] ! i)) =
           contents (exampleMemory, examplePlayer) 2 (Ext ([0, 1] ! i))"
      "\<forall>i. nat 1 \<le> i \<and> i < nat 2 \<longrightarrow>
               channels s' ! i = Some (Temp (i - nat 1))
             \<and> (\<forall>a. channels s' ! i \<noteq> Some (Ext a))
             \<and> contents (mem', s') 2 (Temp (i - nat 1)) =
                 contents (exampleMemory, examplePlayer) 2 (Ext ([0, 1] ! i))"
    by blast
  from r(3) have 0: "channels s' ! 0 = Some (Ext 2)"
    "contents (mem', s') 2 (Ext 2) = [Some 5, Some 6]"
    by (simp_all add: contents_def exampleMemory_def)
  from r(4) [rule_format, of 1] have 1: "channels s' ! 1 = Some (Temp 0)"
    "contents (mem', s') 2 (Temp 0) = [Some 7, Some 8]"
    by (simp_all add: contents_def exampleMemory_def)
  from r(2) have 2: "referTo 2 s' = Inr [Ext 2, Temp 0]"
    by (simp add: unifiedBuffer_def)
  from h r(1) 0 1 2 show ?thesis by blast
qed

text \<open>
  C4: when \<open>numOut \<ge> numIn \<ge> 0\<close> (valid and pairwise different arrays, a \<^verbatim>\<open>channels\<close>
  block of at least \<open>numOut\<close> slots), after the remap step the first \<open>numIn\<close> output
  arrays equal the corresponding input channels sample for sample over \<open>numSamples\<close>
  samples, the remaining \<open>numOut - numIn\<close> output arrays hold zeros, and the unified
  channel count is \<open>numOut\<close>: the buffer refers to exactly the \<open>numOut\<close> output arrays,
  and a processor that is installed and not suspended receives \<^verbatim>\<open>processBlock\<close> with it.
\<close>

theorem remap_surplus_outputs:
  assumes "validCall ins numIn outs numOut n mem"
    and "numIn \<le> numOut"
    and "numOut \<le> int (length (channels s))"
  shows "(\<exists>mem' s'.
           remapChannels ins numIn outs numOut n (mem, s) = Inr (numOut, mem', s')
         \<and> referTo numOut s' = Inr (map Ext (take (nat numOut) outs))
         \<and> length (take (nat numOut) outs) = nat numOut
         \<and> (\<forall>i<nat numIn.
               contents (mem', s') n (Ext (outs ! i)) = contents (mem, s) n (Ext (ins ! i))
             \<and> length (contents (mem, s) n (Ext (ins ! i))) = nat n)
         \<and> (\<forall>i. nat numIn \<le> i \<and> i < nat numOut \<longrightarrow>
               contents (mem', s') n (Ext (outs ! i)) = replicate (nat n) (Some 0))
         \<and> (\<forall>i<nat numOut. channels s' ! i = Some (Ext (outs ! i))))
       \<and> (shaped (tempBuffer s) \<longrightarrow>
           (\<forall>units p. processor s = Some p \<and> \<not> isSuspended units p \<longrightarrow>
             (\<exists>mem2 s2.
                 audioDeviceIOCallback units ins numIn outs numOut n (mem, s) = Inr (mem2, s2)
               \<and> unitCalls p (newCalls s s2) =
                   [GetCallbackLock p, IsSuspended p,
                    ProcessBlock p (map Ext (take (nat numOut) outs)) n])))"
proof -
  note v = assms(1)
  let ?M = "remapMem mem ins (nat numIn) outs n (nat numOut)"
  let ?S = "s\<lparr>channels := outputPtrs outs (nat numOut) (channels s)\<rparr>"
  have S: "remappedPlayer ins numIn outs numOut n mem s = ?S"
    using assms(2) by (simp add: remappedPlayer_def)
  from assms have b: "max numIn numOut \<le> int (length (channels s))" by simp
  from assms(2) have mx: "max numIn numOut = numOut" by simp
  have 1: "remapChannels ins numIn outs numOut n (mem, s) = Inr (numOut, ?M, ?S)"
    using remapChannels_le [OF v assms(2,3)] by simp
  have 2: "referTo numOut ?S = Inr (map Ext (take (nat numOut) outs))"
    using referTo_remapped [OF v b] mx assms(2) by (simp add: S unifiedBuffer_def)
  have 3: "length (take (nat numOut) outs) = nat numOut"
    using validCall_lengths(2) [OF v] by simp
  have 4: "\<forall>i<nat numIn.
               contents (?M, ?S) n (Ext (outs ! i)) = contents (mem, s) n (Ext (ins ! i))
             \<and> length (contents (mem, s) n (Ext (ins ! i))) = nat n"
  proof (intro allI impI)
    fix i assume i: "i < nat numIn"
    with assms(2) have "i < nat numOut" by simp
    from remapMem_copy [OF v i this]
    show "contents (?M, ?S) n (Ext (outs ! i)) = contents (mem, s) n (Ext (ins ! i))
             \<and> length (contents (mem, s) n (Ext (ins ! i))) = nat n"
      by simp
  qed
  have 5: "\<forall>i. nat numIn \<le> i \<and> i < nat numOut \<longrightarrow>
               contents (?M, ?S) n (Ext (outs ! i)) = replicate (nat n) (Some 0)"
    using remapMem_zero [OF v] by simp
  have 6: "\<forall>i<nat numOut. channels ?S ! i = Some (Ext (outs ! i))"
    using remapped_channels_out [OF v, of _ s] by (simp add: S)
  have u: "unifiedBuffer outs numIn numOut = map Ext (take (nat numOut) outs)"
    using assms(2) by (simp add: unifiedBuffer_def)
  have 7: "shaped (tempBuffer s) \<longrightarrow>
           (\<forall>units p. processor s = Some p \<and> \<not> isSuspended units p \<longrightarrow>
             (\<exists>mem2 s2.
                 audioDeviceIOCallback units ins numIn outs numOut n (mem, s) = Inr (mem2, s2)
               \<and> unitCalls p (newCalls s s2) =
                   [GetCallbackLock p, IsSuspended p,
                    ProcessBlock p (map Ext (take (nat numOut) outs)) n]))"
    using callback_process_unitCalls [OF v b] unfolding u by blast
  from 1 2 3 4 5 6 have "\<exists>mem' s'.
           remapChannels ins numIn outs numOut n (mem, s) = Inr (numOut, mem', s')
         \<and> referTo numOut s' = Inr (map Ext (take (nat numOut) outs))
         \<and> length (take (nat numOut) outs) = nat numOut
         \<and> (\<forall>i<nat numIn.
               contents (mem', s') n (Ext (outs ! i)) = contents (mem, s) n (Ext (ins ! i))
             \<and> length (contents (mem, s) n (Ext (ins ! i))) = nat n)
         \<and> (\<forall>i. nat numIn \<le> i \<and> i < nat numOut \<longrightarrow>
               contents (mem', s') n (Ext (outs ! i)) = replicate (nat n) (Some 0))
         \<and> (\<forall>i<nat numOut. channels s' ! i = Some (Ext (outs ! i)))"
    by blast
  with 7 show ?thesis by blast
qed

theorem remap_surplus_outputs_witness:
  "validCall [0] 1 [2, 3] 2 2 exampleMemory \<and> (1::int) \<le> 2
   \<and> 2 \<le> int (length (channels examplePlayer))
   \<and> (\<exists>mem' s'.
           remapChannels [0] 1 [2, 3] 2 2 (exampleMemory, examplePlayer) = Inr (2, mem', s')
         \<and> referTo 2 s' = Inr [Ext 2, Ext 3]
         \<and> contents (mem', s') 2 (Ext 2) = [Some 5, Some 6]
         \<and> contents (mem', s') 2 (Ext 3) = [Some 0, Some 0])"
proof -
  have h: "validCall [0] 1 [2, 3] 2 2 exampleMemory" "(1::int) \<le> 2"
    "2 \<le> int (length (channels examplePlayer))"
    by (rule example_validCall, simp, simp add: examplePlayer_fields)
  from remap_surplus_outputs [OF h, THEN conjunct1] obtain mem' s' where
    r: "remapChannels [0] 1 [2, 3] 2 2 (exampleMemory, examplePlayer) = Inr (2, mem', s')"
      "referTo 2 s' = Inr (map Ext (take (nat 2) [2, 3]))"
      "\<forall>i<nat 1. contents (mem', s') 2 (Ext ([2, 3] ! i)) =
           contents (exampleMemory, examplePlayer) 2 (Ext ([0] ! i))
         \<and> length (contents (exampleMemory, examplePlayer) 2 (Ext ([0] ! i))) = nat 2"
      "\<forall>i. nat 1 \<le> i \<and> i < nat 2 \<longrightarrow>
           contents (mem', s') 2 (Ext ([2, 3] ! i)) = replicate (nat 2) (Some 0)"
    by blast
  from r(3) have 0: "contents (mem', s') 2 (Ext 2) = [Some 5, Some 6]"
    by (simp add: contents_def exampleMemory_def)
  from r(4) [rule_format, of 1] have 1: "contents (mem', s') 2 (Ext 3) = [Some 0, Some 0]"
    by (simp add: numeral_2_eq_2)
  from r(2) have 2: "referTo 2 s' = Inr [Ext 2, Ext 3]" by simp
  from h r(1) 0 1 2 show ?thesis by blast
qed

text \<open>
  C5: when a processor is installed and reports itself suspended, the callback zeroes
  each of the \<open>numOut\<close> output arrays over all \<open>numSamples\<close> samples, leaves
  \<^verbatim>\<open>tempBuffer\<close> as the remap step left it, and calls the processor's callback lock and
  \<^verbatim>\<open>isSuspended\<close> only: \<^verbatim>\<open>processBlock\<close> is not called.
\<close>

theorem suspended_processor_gets_silence:
  assumes "validCall ins numIn outs numOut n mem"
    and "max numIn numOut \<le> int (length (channels s))"
    and "shaped (tempBuffer s)"
    and "processor s = Some p"
    and "isSuspended units p"
  shows "\<exists>mem' s' t mem1 s1.
           audioDeviceIOCallback units ins numIn outs numOut n (mem, s) = Inr (mem', s')
         \<and> remapChannels ins numIn outs numOut n (mem, s) = Inr (t, mem1, s1)
         \<and> (\<forall>i<nat numOut. contents (mem', s') n (Ext (outs ! i)) = replicate (nat n) (Some 0))
         \<and> tempBuffer s' = tempBuffer s1
         \<and> unitCalls p (newCalls s s') = [GetCallbackLock p, IsSuspended p]
         \<and> (\<forall>c \<in> set (newCalls s s'). \<forall>q b k. c \<noteq> ProcessBlock q b k)"
proof -
  note v = assms(1) and b = assms(2) and sh = assms(3)
  let ?M = "remapMem mem ins (nat numIn) outs n (nat numOut)"
  let ?m' = "silenced ?M outs n (nat numOut)"
  let ?s' = "(remappedPlayer ins numIn outs numOut n mem (announced n s))
                  \<lparr>calls := calls (announced n s)
                     @ [(Suc (lock s), GetCallbackLock p), (Suc (lock s), IsSuspended p)]\<rparr>"
  have 1: "audioDeviceIOCallback units ins numIn outs numOut n (mem, s) = Inr (?m', ?s')"
    using assms by (rule callback_suspended)
  have 2: "remapChannels ins numIn outs numOut n (mem, s) =
             Inr (max numIn numOut, ?M, remappedPlayer ins numIn outs numOut n mem s)"
    using v b sh by (rule remapChannels_total)
  have 3: "\<forall>i<nat numOut. contents (?m', ?s') n (Ext (outs ! i)) = replicate (nat n) (Some 0)"
    using validCall_lengths(2) [OF v] by (simp add: silenced_contents)
  have 4: "tempBuffer ?s' = tempBuffer (remappedPlayer ins numIn outs numOut n mem s)"
    by (simp add: remappedPlayer_announced)
  have c: "calls ?s' = calls s
     @ ((if sampleRate s > 0 \<and> blockSize s > 0 then [] else [(lock s, JAssertFailed)])
        @ [(lock s, CollectorRemoveNextBlockOfMessages n),
           (Suc (lock s), GetCallbackLock p), (Suc (lock s), IsSuspended p)])"
    by (simp add: announced_calls)
  have 5: "unitCalls p (newCalls s ?s') = [GetCallbackLock p, IsSuspended p]"
    unfolding newCalls_append [OF c] by (simp add: unitCalls_def)
  have 6: "\<forall>c \<in> set (newCalls s ?s'). \<forall>q b k. c \<noteq> ProcessBlock q b k"
    unfolding newCalls_append [OF c] by simp
  from 1 2 3 4 5 6 show ?thesis by blast
qed

theorem suspended_processor_gets_silence_witness:
  "validCall [0, 1] 2 [2, 3] 2 2 exampleMemory
   \<and> max 2 2 \<le> int (length (channels examplePlayer))
   \<and> shaped (tempBuffer examplePlayer)
   \<and> processor examplePlayer = Some 7
   \<and> isSuspended suspendedUnits 7
   \<and> (\<exists>mem' s'.
           audioDeviceIOCallback suspendedUnits [0, 1] 2 [2, 3] 2 2 (exampleMemory, examplePlayer) =
             Inr (mem', s')
         \<and> contents (mem', s') 2 (Ext 2) = [Some 0, Some 0]
         \<and> contents (mem', s') 2 (Ext 3) = [Some 0, Some 0]
         \<and> unitCalls 7 (newCalls examplePlayer s') = [GetCallbackLock 7, IsSuspended 7])"
proof -
  have h: "validCall [0, 1] 2 [2, 3] 2 2 exampleMemory"
    "max 2 2 \<le> int (length (channels examplePlayer))"
    "shaped (tempBuffer examplePlayer)" "processor examplePlayer = Some 7"
    "isSuspended suspendedUnits 7"
    by (rule example_validCall, simp add: examplePlayer_fields, rule examplePlayer_shaped,
        rule examplePlayer_fields, simp add: suspendedUnits_def)
  from suspended_processor_gets_silence [OF h] obtain mem' s' where
    r: "audioDeviceIOCallback suspendedUnits [0, 1] 2 [2, 3] 2 2 (exampleMemory, examplePlayer) =
          Inr (mem', s')"
      "\<forall>i<nat 2. contents (mem', s') 2 (Ext ([2, 3] ! i)) = replicate (nat 2) (Some 0)"
      "unitCalls 7 (newCalls examplePlayer s') = [GetCallbackLock 7, IsSuspended 7]"
    by blast
  from r(2) [rule_format, of 0] have 0: "contents (mem', s') 2 (Ext 2) = [Some 0, Some 0]"
    by (simp add: numeral_2_eq_2)
  from r(2) [rule_format, of 1] have 1: "contents (mem', s') 2 (Ext 3) = [Some 0, Some 0]"
    by (simp add: numeral_2_eq_2)
  from h r(1,3) 0 1 show ?thesis by blast
qed

text \<open>
  C6: when no processor is installed, the callback returns the caller's memory exactly
  as the remap step wrote it: the first \<open>min(numIn, numOut)\<close> output arrays hold the
  input, the remaining output arrays hold zeros, nothing is cleared afterwards, and no
  call is made on any processor.
\<close>

theorem no_processor_passes_input_through:
  assumes "validCall ins numIn outs numOut n mem"
    and "max numIn numOut \<le> int (length (channels s))"
    and "shaped (tempBuffer s)"
    and "processor s = None"
  shows "\<exists>mem' s' t s1.
           audioDeviceIOCallback units ins numIn outs numOut n (mem, s) = Inr (mem', s')
         \<and> remapChannels ins numIn outs numOut n (mem, s) = Inr (t, mem', s1)
         \<and> tempBuffer s' = tempBuffer s1
         \<and> (\<forall>i<nat (min numIn numOut).
               contents (mem', s') n (Ext (outs ! i)) = contents (mem, s) n (Ext (ins ! i))
             \<and> length (contents (mem, s) n (Ext (ins ! i))) = nat n)
         \<and> (\<forall>i. nat (min numIn numOut) \<le> i \<and> i < nat numOut \<longrightarrow>
               contents (mem', s') n (Ext (outs ! i)) = replicate (nat n) (Some 0))
         \<and> (\<forall>c \<in> set (newCalls s s'). target c = None)"
proof -
  note v = assms(1) and b = assms(2) and sh = assms(3)
  let ?M = "remapMem mem ins (nat numIn) outs n (nat numOut)"
  let ?s' = "remappedPlayer ins numIn outs numOut n mem (announced n s)"
  have 1: "audioDeviceIOCallback units ins numIn outs numOut n (mem, s) = Inr (?M, ?s')"
    using assms by (rule callback_no_processor)
  have 2: "remapChannels ins numIn outs numOut n (mem, s) =
             Inr (max numIn numOut, ?M, remappedPlayer ins numIn outs numOut n mem s)"
    using v b sh by (rule remapChannels_total)
  have 3: "tempBuffer ?s' = tempBuffer (remappedPlayer ins numIn outs numOut n mem s)"
    by (simp add: remappedPlayer_announced)
  have 4: "\<forall>i<nat (min numIn numOut).
               contents (?M, ?s') n (Ext (outs ! i)) = contents (mem, s) n (Ext (ins ! i))
             \<and> length (contents (mem, s) n (Ext (ins ! i))) = nat n"
  proof (intro allI impI)
    fix i assume "i < nat (min numIn numOut)"
    then have "i < nat numIn" "i < nat numOut" by simp_all
    from remapMem_copy [OF v this]
    show "contents (?M, ?s') n (Ext (outs ! i)) = contents (mem, s) n (Ext (ins ! i))
             \<and> length (contents (mem, s) n (Ext (ins ! i))) = nat n" by simp
  qed
  have 5: "\<forall>i. nat (min numIn numOut) \<le> i \<and> i < nat numOut \<longrightarrow>
               contents (?M, ?s') n (Ext (outs ! i)) = replicate (nat n) (Some 0)"
  proof (intro allI impI, elim conjE)
    fix i assume i: "nat (min numIn numOut) \<le> i" "i < nat numOut"
    then have "nat numIn \<le> i" by (simp add: min_def split: if_splits)
    from remapMem_zero [OF v this i(2)]
    show "contents (?M, ?s') n (Ext (outs ! i)) = replicate (nat n) (Some 0)" .
  qed
  have c: "calls ?s' = calls s
     @ ((if sampleRate s > 0 \<and> blockSize s > 0 then [] else [(lock s, JAssertFailed)])
        @ [(lock s, CollectorRemoveNextBlockOfMessages n)])"
    by (simp add: announced_calls)
  have 6: "\<forall>c \<in> set (newCalls s ?s'). target c = None"
    unfolding newCalls_append [OF c] by simp
  from 1 2 3 4 5 6 show ?thesis by blast
qed

theorem no_processor_passes_input_through_witness:
  "validCall [0] 1 [2, 3] 2 2 exampleMemory
   \<and> max 1 2 \<le> int (length (channels configuredPlayer))
   \<and> shaped (tempBuffer configuredPlayer)
   \<and> processor configuredPlayer = None
   \<and> (\<exists>mem' s'.
           audioDeviceIOCallback runningUnits [0] 1 [2, 3] 2 2 (exampleMemory, configuredPlayer) =
             Inr (mem', s')
         \<and> contents (mem', s') 2 (Ext 2) = [Some 5, Some 6]
         \<and> contents (mem', s') 2 (Ext 3) = [Some 0, Some 0]
         \<and> (\<forall>c \<in> set (newCalls configuredPlayer s'). target c = None))"
proof -
  have h: "validCall [0] 1 [2, 3] 2 2 exampleMemory"
    "max 1 2 \<le> int (length (channels configuredPlayer))"
    "shaped (tempBuffer configuredPlayer)" "processor configuredPlayer = None"
    by (rule example_validCall, simp add: configuredPlayer_fields,
        rule configuredPlayer_fields, rule configuredPlayer_fields)
  from no_processor_passes_input_through [OF h, of runningUnits] obtain mem' s' where
    r: "audioDeviceIOCallback runningUnits [0] 1 [2, 3] 2 2 (exampleMemory, configuredPlayer) =
          Inr (mem', s')"
      "\<forall>i<nat (min 1 2). contents (mem', s') 2 (Ext ([2, 3] ! i)) =
           contents (exampleMemory, configuredPlayer) 2 (Ext ([0] ! i))
         \<and> length (contents (exampleMemory, configuredPlayer) 2 (Ext ([0] ! i))) = nat 2"
      "\<forall>i. nat (min 1 2) \<le> i \<and> i < nat 2 \<longrightarrow>
           contents (mem', s') 2 (Ext ([2, 3] ! i)) = replicate (nat 2) (Some 0)"
      "\<forall>c \<in> set (newCalls configuredPlayer s'). target c = None"
    by blast
  from r(2) have 0: "contents (mem', s') 2 (Ext 2) = [Some 5, Some 6]"
    by (simp add: contents_def exampleMemory_def)
  from r(3) [rule_format, of 1] have 1: "contents (mem', s') 2 (Ext 3) = [Some 0, Some 0]"
    by (simp add: numeral_2_eq_2)
  from h r(1,4) 0 1 show ?thesis by blast
qed

section \<open>The processor slot through the life of the player\<close>

text \<open>
  C2, as stated: whenever a processor is installed and \<^verbatim>\<open>isPrepared\<close> is set, the
  processor has received exactly one \<^verbatim>\<open>prepareToPlay\<close> and no \<^verbatim>\<open>releaseResources\<close>
  after it. The new player satisfies this, and \<^verbatim>\<open>setProcessor\<close> on it breaks it: the
  sample rate is still 0, so the guard skips the prepare call, yet \<^verbatim>\<open>isPrepared\<close> is set.
\<close>

theorem slot_invariant_fails_unconfigured:
  "slotInvariant AudioProcessorPlayer_new
   \<and> perform (OpSetProcessor (Some 7)) AudioProcessorPlayer_new =
       Inr (setProcessor (Some 7) AudioProcessorPlayer_new)
   \<and> processor (setProcessor (Some 7) AudioProcessorPlayer_new) = Some 7
   \<and> isPrepared (setProcessor (Some 7) AudioProcessorPlayer_new)
   \<and> unitCalls 7 (map snd (calls (setProcessor (Some 7) AudioProcessorPlayer_new))) = []
   \<and> \<not> slotInvariant (setProcessor (Some 7) AudioProcessorPlayer_new)"
  by (simp add: slotInvariant_def setProcessor_fields setProcessor_calls
      AudioProcessorPlayer_new_def preparesSinceRelease_def unitCalls_def)

text \<open>
  C2, amended: in every state the operations lead to from a new player, whenever a
  processor is installed, \<^verbatim>\<open>isPrepared\<close> is set and the player is configured
  (\<open>sampleRate > 0\<close> and \<open>blockSize > 0\<close>), that processor has received exactly one
  \<^verbatim>\<open>prepareToPlay\<close> since its last \<^verbatim>\<open>releaseResources\<close> (since the start, if it was never
  released), so no release has followed that prepare. The prepare call precedes the
  assignment of the slot, as in \<^verbatim>\<open>setProcessor\<close>.
\<close>

theorem configured_slot_invariant:
  assumes "performAll ops AudioProcessorPlayer_new = Inr s"
  shows "configuredSlotInvariant s"
  using lifecycleInvariant_new assms
  by (rule lifecycleInvariant_slot [OF lifecycleInvariant_performAll])

theorem configured_slot_invariant_witness:
  "performAll [OpPrepareToPlay 44100 512 2 2, OpSetProcessor (Some 7)] AudioProcessorPlayer_new =
     Inr examplePlayer
   \<and> processor examplePlayer = Some 7 \<and> isPrepared examplePlayer
   \<and> 0 < sampleRate examplePlayer \<and> 0 < blockSize examplePlayer
   \<and> preparesSinceRelease 7 (map snd (calls examplePlayer)) = 1"
proof -
  have h: "performAll [OpPrepareToPlay 44100 512 2 2, OpSetProcessor (Some 7)]
             AudioProcessorPlayer_new = Inr examplePlayer"
    by (simp add: examplePlayer_def)
  from configured_slot_invariant [OF h] h show ?thesis
    by (simp add: configuredSlotInvariant_def examplePlayer_fields)
qed

section \<open>A callback after the device has stopped\<close>

text \<open>
  C7, as stated: a callback that arrives after \<^verbatim>\<open>audioDeviceStopped\<close> and before the next
  \<^verbatim>\<open>prepareToPlay\<close> does not process the block. On the stopped example player it does:
  the assertion fails, and \<^verbatim>\<open>processBlock\<close> is called all the same.
\<close>

theorem stopped_player_processes_block:
  "sampleRate stoppedPlayer = 0 \<and> blockSize stoppedPlayer = 0
   \<and> \<not> isl (audioDeviceIOCallback runningUnits [0, 1] 2 [2, 3] 2 2 (exampleMemory, stoppedPlayer))
   \<and> newCalls stoppedPlayer
         (snd (projr (audioDeviceIOCallback runningUnits [0, 1] 2 [2, 3] 2 2
                        (exampleMemory, stoppedPlayer)))) =
       [JAssertFailed, CollectorRemoveNextBlockOfMessages 2, GetCallbackLock 7, IsSuspended 7,
        ProcessBlock 7 [Ext 2, Ext 3] 2]"
proof -
  have h: "validCall [0, 1] 2 [2, 3] 2 2 exampleMemory"
    "max 2 2 \<le> int (length (channels stoppedPlayer))"
    "shaped (tempBuffer stoppedPlayer)" "processor stoppedPlayer = Some 7"
    "\<not> isSuspended runningUnits 7"
    by (rule example_validCall, simp add: stoppedPlayer_fields, rule stoppedPlayer_fields,
        rule stoppedPlayer_fields, simp add: runningUnits_def)
  from callback_process [OF h] obtain mem' s' where
    r: "audioDeviceIOCallback runningUnits [0, 1] 2 [2, 3] 2 2 (exampleMemory, stoppedPlayer) =
          Inr (mem', s')"
    and c: "calls s' = calls (announced 2 stoppedPlayer)
               @ [(Suc (lock stoppedPlayer), GetCallbackLock 7),
                  (Suc (lock stoppedPlayer), IsSuspended 7),
                  (Suc (lock stoppedPlayer), ProcessBlock 7 (unifiedBuffer [2, 3] 2 2) 2)]"
    by blast
  have "calls s' = calls stoppedPlayer
          @ [(0, JAssertFailed), (0, CollectorRemoveNextBlockOfMessages 2),
             (1, GetCallbackLock 7), (1, IsSuspended 7), (1, ProcessBlock 7 [Ext 2, Ext 3] 2)]"
    unfolding c announced_calls by (simp add: stoppedPlayer_fields unifiedBuffer_def)
  from newCalls_append [OF this] r show ?thesis
    by (simp add: stoppedPlayer_fields)
qed

text \<open>
  C7, amended: after \<^verbatim>\<open>audioDeviceStopped\<close> the sample rate and the block size are 0 and
  \<^verbatim>\<open>isPrepared\<close> is cleared; a callback that arrives then only fails its \<^verbatim>\<open>jassert\<close>.
  It reads none of the three: for a well-formed call it remaps the channels as usual
  and, when a processor is still installed and not suspended, calls its
  \<^verbatim>\<open>processBlock\<close> with the unified buffer of \<open>max(numIn, numOut)\<close> channels.
\<close>

theorem stopped_player_still_dispatches:
  assumes "validCall ins numIn outs numOut n mem"
    and "max numIn numOut \<le> int (length (channels s))"
    and "shaped (tempBuffer s)"
    and "processor s = Some p"
    and "\<not> isSuspended units p"
  shows "sampleRate (audioDeviceStopped s) = 0 \<and> blockSize (audioDeviceStopped s) = 0
       \<and> \<not> isPrepared (audioDeviceStopped s)
       \<and> (\<exists>mem' s'.
             audioDeviceIOCallback units ins numIn outs numOut n (mem, audioDeviceStopped s) =
               Inr (mem', s')
           \<and> newCalls (audioDeviceStopped s) s' =
               [JAssertFailed, CollectorRemoveNextBlockOfMessages n, GetCallbackLock p,
                IsSuspended p, ProcessBlock p (unifiedBuffer outs numIn numOut) n]
           \<and> length (unifiedBuffer outs numIn numOut) = nat (max numIn numOut))"
proof -
  note v = assms(1)
  let ?s = "audioDeviceStopped s"
  have b: "max numIn numOut \<le> int (length (channels ?s))"
    using assms(2) by (simp add: audioDeviceStopped_fields)
  have sh: "shaped (tempBuffer ?s)"
    using assms(3) by (simp add: audioDeviceStopped_fields shaped_setSize)
  have p: "processor ?s = Some p" using assms(4) by (simp add: audioDeviceStopped_fields)
  from callback_process [OF v b sh p assms(5)] obtain mem' s' where
    r: "audioDeviceIOCallback units ins numIn outs numOut n (mem, ?s) = Inr (mem', s')"
    and c: "calls s' = calls (announced n ?s)
               @ [(Suc (lock ?s), GetCallbackLock p), (Suc (lock ?s), IsSuspended p),
                  (Suc (lock ?s), ProcessBlock p (unifiedBuffer outs numIn numOut) n)]"
    by blast
  have "calls s' = calls ?s
          @ [(lock ?s, JAssertFailed), (lock ?s, CollectorRemoveNextBlockOfMessages n),
             (Suc (lock ?s), GetCallbackLock p), (Suc (lock ?s), IsSuspended p),
             (Suc (lock ?s), ProcessBlock p (unifiedBuffer outs numIn numOut) n)]"
    unfolding c announced_calls by (simp add: audioDeviceStopped_fields)
  from newCalls_append [OF this]
  have 1: "newCalls ?s s' =
               [JAssertFailed, CollectorRemoveNextBlockOfMessages n, GetCallbackLock p,
                IsSuspended p, ProcessBlock p (unifiedBuffer outs numIn numOut) n]"
    by simp
  have 2: "length (unifiedBuffer outs numIn numOut) = nat (max numIn numOut)"
    using validCall_lengths(2,5,6) [OF v] by (auto simp add: unifiedBuffer_def max_def)
  from r 1 2 show ?thesis by (auto simp add: audioDeviceStopped_fields)
qed

theorem stopped_player_still_dispatches_witness:
  "validCall [0, 1] 2 [2] 1 2 exampleMemory
   \<and> max 2 1 \<le> int (length (channels examplePlayer))
   \<and> shaped (tempBuffer examplePlayer)
   \<and> processor examplePlayer = Some 7
   \<and> \<not> isSuspended runningUnits 7
   \<and> sampleRate (audioDeviceStopped examplePlayer) = 0
   \<and> (\<exists>mem' s'.
         audioDeviceIOCallback runningUnits [0, 1] 2 [2] 1 2
           (exampleMemory, audioDeviceStopped examplePlayer) = Inr (mem', s')
       \<and> newCalls (audioDeviceStopped examplePlayer) s' =
           [JAssertFailed, CollectorRemoveNextBlockOfMessages 2, GetCallbackLock 7,
            IsSuspended 7, ProcessBlock 7 [Ext 2, Temp 0] 2])"
proof -
  have h: "validCall [0, 1] 2 [2] 1 2 exampleMemory"
    "max 2 1 \<le> int (length (channels examplePlayer))"
    "shaped (tempBuffer examplePlayer)" "processor examplePlayer = Some 7"
    "\<not> isSuspended runningUnits 7"
    by (rule example_validCall, simp add: examplePlayer_fields, rule examplePlayer_shaped,
        rule examplePlayer_fields, simp add: runningUnits_def)
  have u: "unifiedBuffer [2] 2 1 = [Ext 2, Temp 0]" by (simp add: unifiedBuffer_def)
  from stopped_player_still_dispatches [OF h] h show ?thesis
    unfolding u by blast
qed

section \<open>The lock and the lifecycle calls\<close>

text \<open>
  C9, as stated: the player's lock is never held across a \<^verbatim>\<open>prepareToPlay\<close> or
  \<^verbatim>\<open>releaseResources\<close> call on the processor. On the example player, entered with the
  lock free, \<^verbatim>\<open>audioDeviceStopped\<close> releases the processor with the lock held, and the
  player's \<^verbatim>\<open>prepareToPlay\<close> releases and prepares it with the lock held.
\<close>

theorem lock_held_across_release_and_prepare:
  "lock examplePlayer = 0
   \<and> (1, ReleaseResources 7) \<in> set (newEvents examplePlayer (audioDeviceStopped examplePlayer))
   \<and> (1, ReleaseResources 7)
       \<in> set (newEvents examplePlayer (prepareToPlay 48000 256 2 2 examplePlayer))
   \<and> (1, PrepareToPlay 7 48000 256)
       \<in> set (newEvents examplePlayer (prepareToPlay 48000 256 2 2 examplePlayer))"
  by (simp add: newEvents_append [OF prepareToPlay_calls]
      newEvents_append [OF audioDeviceStopped_calls] examplePlayer_fields)

text \<open>
  C9, amended: \<^verbatim>\<open>setProcessor\<close> holds the lock only to swap the slot and the flag: every
  call it makes (configuration, prepare, release) is made at the lock depth it was
  entered with, so with the lock free when its caller does not hold it. The player's
  \<^verbatim>\<open>prepareToPlay\<close> and \<^verbatim>\<open>audioDeviceStopped\<close> hold the lock for their whole body: every
  call they make, the releases and the prepare of the re-installation included, is made
  one level deeper. The audio callback makes no prepare or release call.
\<close>

theorem lock_depth_of_calls:
  "(\<forall>e \<in> set (newEvents s (setProcessor q s)). fst e = lock s)
   \<and> lock (setProcessor q s) = lock s
   \<and> (\<forall>e \<in> set (newEvents s (prepareToPlay sr bs cin cout s)). fst e = Suc (lock s))
   \<and> (\<forall>e \<in> set (newEvents s (audioDeviceStopped s)). fst e = Suc (lock s))
   \<and> (\<forall>mem' s'. audioDeviceIOCallback units ins numIn outs numOut n (mem, s) = Inr (mem', s')
         \<longrightarrow> (\<forall>e \<in> set (newEvents s s'). \<not> isLifecycleCall (snd e)))"
proof -
  have 1: "\<forall>e \<in> set (newEvents s (setProcessor q s)). fst e = lock s"
    unfolding newEvents_append [OF setProcessor_calls] by (auto split: option.splits)
  have 2: "\<forall>e \<in> set (newEvents s (prepareToPlay sr bs cin cout s)). fst e = Suc (lock s)"
    unfolding newEvents_append [OF prepareToPlay_calls] by (auto split: option.splits)
  have 3: "\<forall>e \<in> set (newEvents s (audioDeviceStopped s)). fst e = Suc (lock s)"
    unfolding newEvents_append [OF audioDeviceStopped_calls] by (auto split: option.splits)
  have 4: "\<forall>mem' s'. audioDeviceIOCallback units ins numIn outs numOut n (mem, s) = Inr (mem', s')
         \<longrightarrow> (\<forall>e \<in> set (newEvents s s'). \<not> isLifecycleCall (snd e))"
  proof (intro allI impI)
    fix mem' s'
    assume "audioDeviceIOCallback units ins numIn outs numOut n (mem, s) = Inr (mem', s')"
    from callback_frame [OF this] obtain b where
      c: "calls s' = calls s @
               (if sampleRate s > 0 \<and> blockSize s > 0 then [] else [(lock s, JAssertFailed)])
               @ [(lock s, CollectorRemoveNextBlockOfMessages n)]
               @ (case processor s of None \<Rightarrow> []
                  | Some p \<Rightarrow> [(Suc (lock s), GetCallbackLock p), (Suc (lock s), IsSuspended p)]
                      @ (if isSuspended units p then []
                         else [(Suc (lock s), ProcessBlock p b n)]))"
      by blast
    show "\<forall>e \<in> set (newEvents s s'). \<not> isLifecycleCall (snd e)"
      unfolding newEvents_append [OF c] by (auto split: option.splits)
  qed
  from 1 2 3 4 show ?thesis by (simp add: setProcessor_fields)
qed

theorem lock_depth_of_calls_witness:
  "lock examplePlayer = 0
   \<and> newEvents examplePlayer (setProcessor (Some 8) examplePlayer) =
       [(0, SetPlayConfigDetails 8 2 2 44100 512), (0, PrepareToPlay 8 44100 512),
        (0, ReleaseResources 7)]
   \<and> list_all (\<lambda>e. fst e = 0) (newEvents examplePlayer (setProcessor (Some 8) examplePlayer))
   \<and> list_all (\<lambda>e. fst e = 1)
         (newEvents examplePlayer (prepareToPlay 48000 256 2 2 examplePlayer))
   \<and> list_all (\<lambda>e. fst e = 1) (newEvents examplePlayer (audioDeviceStopped examplePlayer))"
proof -
  have e: "newEvents examplePlayer (setProcessor (Some 8) examplePlayer) =
       [(0, SetPlayConfigDetails 8 2 2 44100 512), (0, PrepareToPlay 8 44100 512),
        (0, ReleaseResources 7)]"
    unfolding newEvents_append [OF setProcessor_calls]
    by (simp add: examplePlayer_fields examplePlayer_def setProcessor_fields prepareToPlay_fields
        AudioProcessorPlayer_new_def)
  from lock_depth_of_calls [of examplePlayer "Some 8" 48000 256 2 2] e
  show ?thesis by (simp add: examplePlayer_fields list_all_iff)
qed

section \<open>The size of the channel array\<close>

text \<open>
  Past that range the 32-bit sum \<open>jmax (numChansIn, numChansOut) + 2\<close> wraps to a negative
  count and the block has no slot: only a callback with no channel at all stays in bounds.
\<close>

lemma channels_block_overflow:
  assumes "cin \<le> 2147483647" and "cout \<le> 2147483647" and "2147483645 < max cin cout"
  shows "channels (prepareToPlay sr bs cin cout s) = []"
proof -
  from assms have "int32 (max cin cout + 2) = max cin cout + 2 - 4294967296"
    by (intro int32_overflow) auto
  with assms(1,2) have "int32 (max cin cout + 2) < 0" by simp
  then show ?thesis by (simp add: prepareToPlay_fields calloc_def)
qed



end
